theory Spec2Isabelle
  imports Complex_Main
begin

section \<open>Skeletal animation controller: data model\<close>

text \<open>
  The Python source computes with \<^verbatim>\<open>float\<close>, the IEEE 754 double. A float is
  modelled as the \<^typ>\<open>real\<close> it denotes; there is no infinity and no NaN. Integers
  (bone ids) are \<^typ>\<open>int\<close>, strings are \<^typ>\<open>string\<close>.

  The clips and the animator use \<^verbatim>\<open>+\<close>, \<^verbatim>\<open>-\<close>, \<^verbatim>\<open>*\<close>, \<^verbatim>\<open>/\<close> and \<^verbatim>\<open>%\<close> only, and
  IEEE 754 fixes their results: each is the exact result rounded to the nearest double,
  ties to the even one. There every operation is written with its rounding (\<open>fadd\<close>,
  \<open>fsub\<close>, \<open>fmul\<close>, \<open>fdiv\<close>, \<open>py_fmod\<close>). A result beyond the largest double is rounded
  like the others and not turned into an infinity.

  The kinematics go through \<^verbatim>\<open>math.cos\<close>, \<^verbatim>\<open>math.sin\<close>, \<^verbatim>\<open>math.atan2\<close> and
  \<^verbatim>\<open>math.dist\<close>, which the library does not fix to the last bit. They are modelled on
  exact reals, the arithmetic around them too: an equality proved of the kinematics is
  one of the geometry, which the doubles follow up to their rounding. The runs of the
  solver that refute a statement below have positions that are doubles and that the
  code computes without a rounding error, so they are runs of the code as well.
\<close>

subsection \<open>Floating point\<close>

text \<open>The nearest integer, a tie going to the even one.\<close>

definition round_half_even :: "real \<Rightarrow> int" where
  "round_half_even y =
     (let f = \<lfloor>y\<rfloor>; r = y - of_int f
      in if r < 1 / 2 then f else if 1 / 2 < r then f + 1 else if even f then f else f + 1)"

text \<open>
  The doubles around \<open>x\<close> are the multiples of \<open>2\<close> to the power \<open>ulp_exponent x\<close>: 53
  significant bits, and never finer than the subnormal step.
\<close>

definition ulp_exponent :: "real \<Rightarrow> int" where
  "ulp_exponent x = max (\<lfloor>log 2 \<bar>x\<bar>\<rfloor> - 52) (- 1074)"

definition fl :: "real \<Rightarrow> real" where
  "fl x =
     (if x = 0 then 0
      else of_int (round_half_even (x / 2 powr of_int (ulp_exponent x)))
             * 2 powr of_int (ulp_exponent x))"

definition fadd :: "real \<Rightarrow> real \<Rightarrow> real" where
  "fadd x y = fl (x + y)"

definition fsub :: "real \<Rightarrow> real \<Rightarrow> real" where
  "fsub x y = fl (x - y)"

definition fmul :: "real \<Rightarrow> real \<Rightarrow> real" where
  "fmul x y = fl (x * y)"

definition fdiv :: "real \<Rightarrow> real \<Rightarrow> real" where
  "fdiv x y = fl (x / y)"

text \<open>C's \<^verbatim>\<open>fmod\<close>: the remainder with the quotient cut towards zero. It is exact.\<close>

definition c_fmod :: "real \<Rightarrow> real \<Rightarrow> real" where
  "c_fmod x y = x - y * of_int (if 0 \<le> x / y then \<lfloor>x / y\<rfloor> else \<lceil>x / y\<rceil>)"

text \<open>
  Python's \<^verbatim>\<open>t % d\<close> on floats, for \<open>d \<noteq> 0\<close>: \<^verbatim>\<open>fmod\<close>, and when the remainder is not
  zero and its sign is not that of \<open>d\<close>, the remainder plus \<open>d\<close>, an addition that rounds.
\<close>

definition py_fmod :: "real \<Rightarrow> real \<Rightarrow> real" where
  "py_fmod t d =
     (let m = c_fmod t d
      in if m \<noteq> 0 then (if (d < 0) \<noteq> (m < 0) then fadd m d else m) else 0)"

datatype PlaybackState = STOPPED | PLAYING | PAUSED | BLENDING

datatype LoopMode = ONCE | LOOP | PING_PONG

datatype InterpolationType = LINEAR | STEP | CUBIC

text \<open>The only exception the animator raises is \<^verbatim>\<open>ValueError\<close> (with its message).\<close>

datatype error = ValueError string

subsection \<open>Bone\<close>

record Bone =
  bone_id :: int
  bone_name :: string
  parent_id :: "int option"
  bone_length :: real
  rest_angle :: real
  current_angle :: real
  world_x :: real
  world_y :: real
  world_angle :: real
  weight :: real

definition tip_x :: "Bone \<Rightarrow> real" where
  "tip_x b = world_x b + bone_length b * cos (world_angle b)"

definition tip_y :: "Bone \<Rightarrow> real" where
  "tip_y b = world_y b + bone_length b * sin (world_angle b)"

subsection \<open>Skeleton\<close>

text \<open>
  \<^verbatim>\<open>Skeleton.bones\<close> is a dict from \<^verbatim>\<open>bone.id\<close> to the bone, iterated in insertion
  order. It is modelled as the list of its values in that order; a bone is found by its
  id. The dict has one entry per key, which is the predicate \<open>wf_skeleton\<close>.
\<close>

record Skeleton =
  bones :: "Bone list"
  root_x :: real
  root_y :: real

definition wf_skeleton :: "Skeleton \<Rightarrow> bool" where
  "wf_skeleton sk = distinct (map bone_id (bones sk))"

definition get_bone :: "Skeleton \<Rightarrow> int \<Rightarrow> Bone option" where
  "get_bone sk bid = find (\<lambda>b. bone_id b = bid) (bones sk)"

text \<open>
  \<^verbatim>\<open>self.bones[bone.id] = bone\<close>: an existing key keeps its place in the iteration
  order, a new key goes to the end.
\<close>

definition add_bone :: "Skeleton \<Rightarrow> Bone \<Rightarrow> Skeleton" where
  "add_bone sk bone =
     (if get_bone sk (bone_id bone) = None then sk\<lparr>bones := bones sk @ [bone]\<rparr>
      else sk\<lparr>bones := map (\<lambda>b. if bone_id b = bone_id bone then bone else b) (bones sk)\<rparr>)"

text \<open>\<^verbatim>\<open>Skeleton.__init__\<close>: the bones are stored one by one, under their ids.\<close>

definition Skeleton_init :: "Bone list \<Rightarrow> Skeleton" where
  "Skeleton_init bs = foldl add_bone \<lparr>bones = [], root_x = 0, root_y = 0\<rparr> bs"

definition get_bone_by_name :: "Skeleton \<Rightarrow> string \<Rightarrow> Bone option" where
  "get_bone_by_name sk n = find (\<lambda>b. bone_name b = n) (bones sk)"

definition get_children :: "Skeleton \<Rightarrow> int \<Rightarrow> Bone list" where
  "get_children sk pid = filter (\<lambda>b. parent_id b = Some pid) (bones sk)"

definition root_bones :: "Skeleton \<Rightarrow> Bone list" where
  "root_bones sk = filter (\<lambda>b. parent_id b = None) (bones sk)"

text \<open>
  Bones are objects mutated in place. \<open>upd_bone sk bid f\<close> is the skeleton after the
  fields of the bone with id \<open>bid\<close> have been assigned as \<open>f\<close> says.
\<close>

definition upd_bone :: "Skeleton \<Rightarrow> int \<Rightarrow> (Bone \<Rightarrow> Bone) \<Rightarrow> Skeleton" where
  "upd_bone sk bid f = sk\<lparr>bones := map (\<lambda>b. if bone_id b = bid then f b else b) (bones sk)\<rparr>"

text \<open>A bone that is found is a bone of the skeleton, and it has the id asked for.\<close>

lemma get_bone_SomeD:
  "get_bone sk i = Some b \<Longrightarrow> b \<in> set (bones sk) \<and> bone_id b = i"
  unfolding get_bone_def by (induction "bones sk" arbitrary: sk) (auto simp: find_Some_iff)

text \<open>
  \<^verbatim>\<open>get_chain\<close>: the while loop walks the parent links from the end bone, stops at a
  missing bone, at a root, or at an id seen before, and the walk is reversed at the end.
\<close>

function get_chain_loop :: "Skeleton \<Rightarrow> int option \<Rightarrow> int list \<Rightarrow> Bone list \<Rightarrow> Bone list" where
  "get_chain_loop sk bid visited chain =
     (case bid of
        None \<Rightarrow> chain
      | Some i \<Rightarrow>
          if i \<in> set visited then chain
          else (case get_bone sk i of
                  None \<Rightarrow> chain
                | Some bone \<Rightarrow> get_chain_loop sk (parent_id bone) (i # visited) (chain @ [bone])))"
  by pat_completeness auto

termination
proof (relation "measure (\<lambda>(sk, bid, visited, chain). card (bone_id ` set (bones sk) - set visited))")
  show "wf (measure (\<lambda>(sk, bid, visited, chain). card (bone_id ` set (bones sk) - set visited)))"
    by simp
next
  fix sk :: Skeleton and bid :: "int option" and visited :: "int list" and chain :: "Bone list"
    and i :: int and bone :: Bone
  assume "bid = Some i" and nv: "i \<notin> set visited" and g: "get_bone sk i = Some bone"
  from get_bone_SomeD[OF g] have "i \<in> bone_id ` set (bones sk)" by auto
  with nv have "card (bone_id ` set (bones sk) - set (i # visited))
      < card (bone_id ` set (bones sk) - set visited)"
    by (intro psubset_card_mono) auto
  then show "((sk, parent_id bone, i # visited, chain @ [bone]), (sk, bid, visited, chain))
      \<in> measure (\<lambda>(sk, bid, visited, chain). card (bone_id ` set (bones sk) - set visited))"
    by simp
qed

declare get_chain_loop.simps [simp del]

definition get_chain :: "Skeleton \<Rightarrow> int \<Rightarrow> Bone list" where
  "get_chain sk end_bone_id = rev (get_chain_loop sk (Some end_bone_id) [] [])"

section \<open>Forward kinematics\<close>

text \<open>
  \<^verbatim>\<open>_process\<close> recurses into the children of a bone. The recursion depth is the first
  argument (fuel): \<open>None\<close> is a recursion that did not come back within it. The loop over
  the children reads \<^verbatim>\<open>bone.tip_x\<close>, \<^verbatim>\<open>bone.tip_y\<close> and \<^verbatim>\<open>bone.world_angle\<close> from the
  bone object at every iteration, so \<open>process_children\<close> looks the bone up in the current
  skeleton (bones are never removed, the lookup cannot miss).
\<close>

fun process :: "nat \<Rightarrow> int \<Rightarrow> real \<Rightarrow> real \<Rightarrow> real \<Rightarrow> Skeleton \<Rightarrow> Skeleton option"
  and process_children :: "nat \<Rightarrow> int \<Rightarrow> int list \<Rightarrow> Skeleton \<Rightarrow> Skeleton option" where
  "process 0 bid parent_world_x parent_world_y parent_world_angle sk = None"
| "process (Suc n) bid parent_world_x parent_world_y parent_world_angle sk =
     (case get_bone sk bid of
        None \<Rightarrow> Some sk
      | Some bone \<Rightarrow>
          (let sk1 = upd_bone sk bid (\<lambda>b. b\<lparr>world_x := parent_world_x, world_y := parent_world_y,
                        world_angle := parent_world_angle + rest_angle b + current_angle b\<rparr>)
           in process_children n bid (map bone_id (get_children sk1 bid)) sk1))"
| "process_children n bid [] sk = Some sk"
| "process_children n bid (c # cs) sk =
     (case get_bone sk bid of
        None \<Rightarrow> None
      | Some bone \<Rightarrow>
          (case process n c (tip_x bone) (tip_y bone) (world_angle bone) sk of
             None \<Rightarrow> None
           | Some sk' \<Rightarrow> process_children n bid cs sk'))"

fun process_roots :: "nat \<Rightarrow> int list \<Rightarrow> Skeleton \<Rightarrow> Skeleton option" where
  "process_roots n [] sk = Some sk"
| "process_roots n (r # rs) sk =
     (case process n r (root_x sk) (root_y sk) 0 sk of
        None \<Rightarrow> None
      | Some sk' \<Rightarrow> process_roots n rs sk')"

text \<open>
  A bone reached from a root lies at a depth below the number of bones, so that many
  levels of recursion are enough (lemma \<open>fk_returns_aux\<close> below).
\<close>

definition calculate_forward_kinematics :: "Skeleton \<Rightarrow> Skeleton option" where
  "calculate_forward_kinematics sk =
     process_roots (length (bones sk)) (map bone_id (root_bones sk)) sk"

section \<open>Inverse kinematics (FABRIK)\<close>

type_synonym point = "real \<times> real"

definition math_dist :: "point \<Rightarrow> point \<Rightarrow> real" where
  "math_dist p q = sqrt ((fst p - fst q)\<^sup>2 + (snd p - snd q)\<^sup>2)"

text \<open>
  \<^verbatim>\<open>math.atan2(y, x)\<close>, the angle of the point \<open>(x, y)\<close> in \<open>(-\<pi>, \<pi>]\<close>, with
  \<^verbatim>\<open>atan2(0, 0) = 0\<close> (there are no signed zeros in this model).
\<close>

definition atan2 :: "real \<Rightarrow> real \<Rightarrow> real" where
  "atan2 y x =
     (if 0 < x then arctan (y / x)
      else if x < 0 then (if 0 \<le> y then arctan (y / x) + pi else arctan (y / x) - pi)
      else if 0 < y then pi / 2
      else if y < 0 then - (pi / 2)
      else 0)"

text \<open>
  The three inner loops share one step: with \<^verbatim>\<open>lam = length / (r if r > 0 else 1e-9)\<close> the
  new point is \<^verbatim>\<open>(1 - lam) * a + lam * b\<close>, in each coordinate.
\<close>

definition place :: "real \<Rightarrow> real \<Rightarrow> point \<Rightarrow> point \<Rightarrow> point" where
  "place r len a b =
     (let lam = len / (if r > 0 then r else 1 / 10 ^ 9)
      in ((1 - lam) * fst a + lam * fst b, (1 - lam) * snd a + lam * snd b))"

text \<open>The stretch pass of the unreachable branch: \<^verbatim>\<open>for i in range(len(positions) - 1)\<close>.\<close>

definition stretch_pass :: "real list \<Rightarrow> point \<Rightarrow> point list \<Rightarrow> point list" where
  "stretch_pass bone_lengths target positions =
     foldl (\<lambda>ps i. ps[Suc i := place (math_dist (ps ! i) target) (bone_lengths ! i) (ps ! i) target])
       positions [0..<length positions - 1]"

text \<open>Forward reaching: \<^verbatim>\<open>for i in range(len(positions) - 2, -1, -1)\<close>.\<close>

definition forward_reaching :: "real list \<Rightarrow> point list \<Rightarrow> point list" where
  "forward_reaching bone_lengths positions =
     foldl (\<lambda>ps i. ps[i := place (math_dist (ps ! i) (ps ! Suc i)) (bone_lengths ! i) (ps ! Suc i) (ps ! i)])
       positions (rev [0..<length positions - 1])"

text \<open>Backward reaching: \<^verbatim>\<open>for i in range(len(positions) - 1)\<close>.\<close>

definition backward_reaching :: "real list \<Rightarrow> point list \<Rightarrow> point list" where
  "backward_reaching bone_lengths positions =
     foldl (\<lambda>ps i. ps[Suc i := place (math_dist (ps ! i) (ps ! Suc i)) (bone_lengths ! i) (ps ! i) (ps ! Suc i)])
       positions [0..<length positions - 1]"

text \<open>
  \<^verbatim>\<open>for _ in range(iterations)\<close> with its \<^verbatim>\<open>break\<close>: the first argument counts the
  iterations that are left.
\<close>

fun fabrik_iterate :: "nat \<Rightarrow> real list \<Rightarrow> point \<Rightarrow> point \<Rightarrow> real \<Rightarrow> point list \<Rightarrow> point list" where
  "fabrik_iterate 0 bone_lengths root_pos target tolerance positions = positions"
| "fabrik_iterate (Suc k) bone_lengths root_pos target tolerance positions =
     (let ps1 = forward_reaching bone_lengths (positions[length positions - 1 := target]);
          ps2 = backward_reaching bone_lengths (ps1[0 := root_pos])
      in if math_dist (last ps2) target < tolerance then ps2
         else fabrik_iterate k bone_lengths root_pos target tolerance ps2)"

text \<open>
  The list \<^verbatim>\<open>positions\<close> when the solver has finished, for a chain of at least one bone:
  the joints of the chain and the tip of its last bone, moved by one of the two branches.
\<close>

definition ik_positions :: "Bone list \<Rightarrow> point \<Rightarrow> int \<Rightarrow> real \<Rightarrow> point list" where
  "ik_positions chain target iterations tolerance =
     (let positions = map (\<lambda>bone. (world_x bone, world_y bone)) chain
                        @ [(tip_x (last chain), tip_y (last chain))];
          bone_lengths = map bone_length chain;
          root_pos = positions ! 0;
          total_length = sum_list bone_lengths;
          dist_to_target = math_dist root_pos target
      in if dist_to_target > total_length then stretch_pass bone_lengths target positions
         else fabrik_iterate (nat iterations) bone_lengths root_pos target tolerance positions)"

text \<open>
  \<^verbatim>\<open>for i, bone in enumerate(chain)\<close>: the bone of the chain at index \<open>i\<close> gets the
  segment from \<^verbatim>\<open>positions[i]\<close> to \<^verbatim>\<open>positions[i + 1]\<close>. The parent's world angle is read
  from the skeleton as it is at that iteration.
\<close>

fun apply_positions :: "Bone list \<Rightarrow> point list \<Rightarrow> Skeleton \<Rightarrow> Skeleton" where
  "apply_positions (bone # chain) (p # q # ps) sk =
     (let wa = atan2 (snd q - snd p) (fst q - fst p);
          parent_world_angle =
            (case parent_id bone of
               None \<Rightarrow> 0
             | Some pid \<Rightarrow> (case get_bone sk pid of None \<Rightarrow> 0 | Some parent \<Rightarrow> world_angle parent))
      in apply_positions chain (q # ps)
           (upd_bone sk (bone_id bone)
              (\<lambda>b. b\<lparr>current_angle := wa - parent_world_angle - rest_angle b,
                     world_x := fst p, world_y := snd p, world_angle := wa\<rparr>)))"
| "apply_positions chain ps sk = sk"

text \<open>The result is the returned flag and the skeleton with its bones as mutated.\<close>

definition calculate_inverse_kinematics ::
    "Skeleton \<Rightarrow> int \<Rightarrow> real \<Rightarrow> real \<Rightarrow> int \<Rightarrow> real \<Rightarrow> bool \<times> Skeleton" where
  "calculate_inverse_kinematics sk end_effector_id target_x target_y iterations tolerance =
     (let chain = get_chain sk end_effector_id
      in if length chain < 2 then (False, sk)
         else
           (let positions = ik_positions chain (target_x, target_y) iterations tolerance
            in (math_dist (last positions) (target_x, target_y) < tolerance,
                apply_positions chain positions sk)))"

section \<open>Keyframes and clips\<close>

text \<open>
  A dict from bone ids to angles is compared and read by key only (the order of a Python
  dict does not take part in \<^verbatim>\<open>==\<close>), so it is a map.
\<close>

record Keyframe =
  kf_time :: real
  bone_angles :: "int \<rightharpoonup> real"
  easing :: InterpolationType

record Clip =
  clip_name :: string
  keyframes :: "Keyframe list"
  loop :: bool
  fps :: real
  loop_mode :: LoopMode

definition duration :: "Clip \<Rightarrow> real" where
  "duration c = (if keyframes c = [] then 0 else kf_time (last (keyframes c)))"

text \<open>\<^verbatim>\<open>list.sort\<close> is stable, as \<^const>\<open>sort_key\<close> is.\<close>

definition add_keyframe :: "Clip \<Rightarrow> Keyframe \<Rightarrow> Clip" where
  "add_keyframe c k = c\<lparr>keyframes := sort_key kf_time (keyframes c @ [k])\<rparr>"

text \<open>The time of \<^verbatim>\<open>sample\<close> after the block "Handle looping".\<close>

definition loop_time :: "Clip \<Rightarrow> real \<Rightarrow> real" where
  "loop_time c t =
     (let d = duration c
      in if d > 0 then
           (case loop_mode c of
              LOOP \<Rightarrow> py_fmod t d
            | PING_PONG \<Rightarrow>
                (let cycle = py_fmod t (fmul d 2)
                 in if cycle \<le> d then cycle else fsub (fmul d 2) cycle)
            | ONCE \<Rightarrow> min t d)
         else t)"

text \<open>
  The pose between two keyframes: every id of either keyframe, a missing angle read as
  \<open>0.0\<close>, and \<^verbatim>\<open>a0 + (a1 - a0) * alpha\<close> for each.
\<close>

definition get_angle :: "(int \<rightharpoonup> real) \<Rightarrow> int \<Rightarrow> real" where
  "get_angle m bid = (case m bid of None \<Rightarrow> 0 | Some a \<Rightarrow> a)"

definition mix :: "(int \<rightharpoonup> real) \<Rightarrow> (int \<rightharpoonup> real) \<Rightarrow> real \<Rightarrow> (int \<rightharpoonup> real)" where
  "mix m0 m1 alpha =
     (\<lambda>bid. if m0 bid = None \<and> m1 bid = None then None
            else Some (fadd (get_angle m0 bid)
                         (fmul (fsub (get_angle m1 bid) (get_angle m0 bid)) alpha)))"

definition interpolate :: "Keyframe \<Rightarrow> Keyframe \<Rightarrow> real \<Rightarrow> (int \<rightharpoonup> real)" where
  "interpolate k0 k1 t =
     (let span = fsub (kf_time k1) (kf_time k0);
          alpha = (if span > 0 then fdiv (fsub t (kf_time k0)) span else 0);
          alpha = (if easing k0 = CUBIC then fmul (fmul alpha alpha) (fsub 3 (fmul 2 alpha))
                   else if easing k0 = STEP then 0 else alpha)
      in mix (bone_angles k0) (bone_angles k1) alpha)"

text \<open>
  \<^verbatim>\<open>for i in range(len(kfs) - 1)\<close>: the first pair of neighbours around \<open>t\<close>; the last
  keyframe's angles when the loop ends without one.
\<close>

fun scan_keyframes :: "Keyframe list \<Rightarrow> real \<Rightarrow> (int \<rightharpoonup> real)" where
  "scan_keyframes (k0 # k1 # kfs) t =
     (if kf_time k0 \<le> t \<and> t \<le> kf_time k1 then interpolate k0 k1 t
      else scan_keyframes (k1 # kfs) t)"
| "scan_keyframes [k] t = bone_angles k"
| "scan_keyframes [] t = Map.empty"

definition sample :: "Clip \<Rightarrow> real \<Rightarrow> (int \<rightharpoonup> real)" where
  "sample c t =
     (if keyframes c = [] then Map.empty
      else
        (let t = loop_time c t; kfs = keyframes c
         in if t \<le> kf_time (hd kfs) then bone_angles (hd kfs)
            else if t \<ge> kf_time (last kfs) then bone_angles (last kfs)
            else scan_keyframes kfs t))"

section \<open>Animator\<close>

record Animator =
  skeleton :: Skeleton
  clips :: "string \<rightharpoonup> Clip"
  state :: PlaybackState
  current_clip :: "string option"
  blend_clip :: "string option"
  blend_alpha :: real
  anim_time :: real
  anim_speed :: real
  blend_duration :: real
  blend_time :: real

definition Animator_init :: "Skeleton \<Rightarrow> (string \<rightharpoonup> Clip) \<Rightarrow> Animator" where
  "Animator_init sk cs =
     \<lparr>skeleton = sk, clips = cs, state = STOPPED, current_clip = None, blend_clip = None,
      blend_alpha = 0, anim_time = 0, anim_speed = 1, blend_duration = 0, blend_time = 0\<rparr>"

definition add_clip :: "Animator \<Rightarrow> Clip \<Rightarrow> Animator" where
  "add_clip a clip = a\<lparr>clips := (clips a)(clip_name clip \<mapsto> clip)\<rparr>"

text \<open>
  \<^verbatim>\<open>play\<close>, \<^verbatim>\<open>blend\<close> and \<^verbatim>\<open>transition_to\<close> may raise. Their result is the exception
  raised, if any, and the animator as the call leaves it, so that whatever a call has
  assigned before it raises stays visible.
\<close>

definition clip_not_found :: "string \<Rightarrow> error" where
  "clip_not_found n = ValueError (''Clip '' @ [CHR 0x27] @ n @ [CHR 0x27] @ '' not found'')"

definition play :: "Animator \<Rightarrow> string \<Rightarrow> bool \<Rightarrow> real \<Rightarrow> error option \<times> Animator" where
  "play a n reset_time speed =
     (if clips a n = None then (Some (clip_not_found n), a)
      else
        (let a = a\<lparr>current_clip := Some n, state := PLAYING, anim_speed := speed,
                    blend_clip := None, blend_alpha := 0\<rparr>
         in (None, if reset_time then a\<lparr>anim_time := 0\<rparr> else a)))"

definition stop :: "Animator \<Rightarrow> Animator" where
  "stop a = a\<lparr>state := STOPPED, anim_time := 0, current_clip := None\<rparr>"

definition pause :: "Animator \<Rightarrow> Animator" where
  "pause a = (if state a = PLAYING then a\<lparr>state := PAUSED\<rparr> else a)"

definition resume :: "Animator \<Rightarrow> Animator" where
  "resume a = (if state a = PAUSED then a\<lparr>state := PLAYING\<rparr> else a)"

definition blend :: "Animator \<Rightarrow> string \<Rightarrow> string \<Rightarrow> real \<Rightarrow> error option \<times> Animator" where
  "blend a clip1 clip2 alpha =
     (if clips a clip1 = None \<or> clips a clip2 = None
      then (Some (ValueError ''One or more clips not found''), a)
      else (None, a\<lparr>current_clip := Some clip1, blend_clip := Some clip2,
                     blend_alpha := max 0 (min 1 alpha), state := BLENDING\<rparr>))"

text \<open>\<^verbatim>\<open>if self.current_clip:\<close> holds for a name that is neither \<^verbatim>\<open>None\<close> nor empty.\<close>

definition truthy :: "string option \<Rightarrow> bool" where
  "truthy s = (case s of None \<Rightarrow> False | Some n \<Rightarrow> n \<noteq> [])"

definition transition_to :: "Animator \<Rightarrow> string \<Rightarrow> real \<Rightarrow> error option \<times> Animator" where
  "transition_to a n dur =
     (if clips a n = None then (Some (clip_not_found n), a)
      else if truthy (current_clip a)
      then (None, a\<lparr>blend_clip := Some n, blend_duration := dur, blend_time := 0,
                     state := BLENDING\<rparr>)
      else play a n True 1)"

text \<open>
  \<^verbatim>\<open>update\<close>, in its parts. The timed transition, run when the state is
  \<^verbatim>\<open>BLENDING\<close> and \<^verbatim>\<open>_blend_duration > 0\<close>:
\<close>

definition blend_step :: "Animator \<Rightarrow> real \<Rightarrow> Animator" where
  "blend_step a dt =
     (let a = a\<lparr>blend_time := fadd (blend_time a) dt\<rparr>;
          a = a\<lparr>blend_alpha := min 1 (fdiv (blend_time a) (blend_duration a))\<rparr>
      in if blend_alpha a \<ge> 1
         then a\<lparr>current_clip := blend_clip a, blend_clip := None, blend_alpha := 0, state := PLAYING\<rparr>
         else a)"

text \<open>
  The pose: the current clip sampled at the clock, mixed with the blend clip when there
  is one; \<open>None\<close> when there is no current clip to sample.
\<close>

definition current_pose :: "Animator \<Rightarrow> (int \<rightharpoonup> real) option" where
  "current_pose a =
     (case current_clip a of
        None \<Rightarrow> None
      | Some n \<Rightarrow>
          if n = [] then None
          else (case clips a n of
                  None \<Rightarrow> None
                | Some clip \<Rightarrow>
                    (let pose = sample clip (anim_time a)
                     in case blend_clip a of
                          None \<Rightarrow> Some pose
                        | Some m \<Rightarrow>
                            if m = [] then Some pose
                            else (case clips a m of
                                    None \<Rightarrow> Some pose
                                  | Some clip2 \<Rightarrow>
                                      Some (mix pose (sample clip2 (anim_time a)) (blend_alpha a))))))"

text \<open>
  \<^verbatim>\<open>for bone_id, angle in pose.items()\<close> assigns \<^verbatim>\<open>current_angle\<close> of the bone with that
  id, when the skeleton has it. The keys of a dict are distinct and each assignment
  touches its own bone, so the loop is the skeleton in which every bone named in the pose
  has its angle.
\<close>

definition apply_pose :: "Skeleton \<Rightarrow> (int \<rightharpoonup> real) \<Rightarrow> Skeleton" where
  "apply_pose sk pose =
     sk\<lparr>bones := map (\<lambda>b. case pose (bone_id b) of None \<Rightarrow> b | Some angle \<Rightarrow> b\<lparr>current_angle := angle\<rparr>)
                    (bones sk)\<rparr>"

text \<open>
  The clock and the timer: what \<^verbatim>\<open>update\<close> assigns before it samples, when the
  animator is neither stopped nor paused.
\<close>

definition advance :: "Animator \<Rightarrow> real \<Rightarrow> Animator" where
  "advance a dt =
     (let a = a\<lparr>anim_time := fadd (anim_time a) (fmul dt (anim_speed a))\<rparr>
      in if state a = BLENDING \<and> blend_duration a > 0 then blend_step a dt else a)"

text \<open>
  The result of \<open>update\<close> is \<open>None\<close> when the forward kinematics it calls does not
  return.
\<close>

definition update :: "Animator \<Rightarrow> real \<Rightarrow> Animator option" where
  "update a dt =
     (if state a = STOPPED \<or> state a = PAUSED then Some a
      else
        (let a = advance a dt
         in case current_pose a of
              None \<Rightarrow> Some a
            | Some pose \<Rightarrow>
                (case calculate_forward_kinematics (apply_pose (skeleton a) pose) of
                   None \<Rightarrow> None
                 | Some sk \<Rightarrow> Some (a\<lparr>skeleton := sk\<rparr>))))"

text \<open>A run of \<open>update\<close> calls, one for each \<open>dt\<close> of the list.\<close>

fun updates :: "Animator \<Rightarrow> real list \<Rightarrow> Animator option" where
  "updates a [] = Some a"
| "updates a (dt # dts) = (case update a dt of None \<Rightarrow> None | Some a' \<Rightarrow> updates a' dts)"

section \<open>The bone hierarchy\<close>

text \<open>
  Forward kinematics assigns the world fields of a bone only. What it reads and never
  assigns is the id, the parent, the length and the two local angles of each bone, and the
  root anchor of the skeleton.
\<close>

definition static_of :: "Bone \<Rightarrow> int \<times> int option \<times> real \<times> real \<times> real" where
  "static_of b = (bone_id b, parent_id b, bone_length b, rest_angle b, current_angle b)"

definition same_static :: "Skeleton \<Rightarrow> Skeleton \<Rightarrow> bool" where
  "same_static sk sk' \<longleftrightarrow>
     map static_of (bones sk') = map static_of (bones sk) \<and> root_x sk' = root_x sk \<and> root_y sk' = root_y sk"

text \<open>
  \<open>at_depth sk n bid\<close>: the bone \<open>bid\<close> is in the skeleton and \<open>n\<close> parent links lead
  from it to a root bone (a bone with \<^verbatim>\<open>parent_id is None\<close>), through bones of the skeleton.
\<close>

fun at_depth :: "Skeleton \<Rightarrow> nat \<Rightarrow> int \<Rightarrow> bool" where
  "at_depth sk 0 bid = (case get_bone sk bid of None \<Rightarrow> False | Some b \<Rightarrow> parent_id b = None)"
| "at_depth sk (Suc n) bid =
     (case get_bone sk bid of
        None \<Rightarrow> False
      | Some b \<Rightarrow> (case parent_id b of None \<Rightarrow> False | Some p \<Rightarrow> at_depth sk n p))"

text \<open>
  The world transform of a bone at depth \<open>n\<close>, read off the chain of its parents: position
  and angle, from the root anchor, the lengths and the local angles alone.
\<close>

fun fk_world :: "Skeleton \<Rightarrow> nat \<Rightarrow> int \<Rightarrow> (real \<times> real \<times> real) option" where
  "fk_world sk 0 bid =
     (case get_bone sk bid of
        None \<Rightarrow> None
      | Some b \<Rightarrow> (case parent_id b of
                    None \<Rightarrow> Some (root_x sk, root_y sk, rest_angle b + current_angle b)
                  | Some p \<Rightarrow> None))"
| "fk_world sk (Suc n) bid =
     (case get_bone sk bid of
        None \<Rightarrow> None
      | Some b \<Rightarrow>
          (case parent_id b of
             None \<Rightarrow> None
           | Some p \<Rightarrow>
               (case get_bone sk p of
                  None \<Rightarrow> None
                | Some pb \<Rightarrow>
                    (case fk_world sk n p of
                       None \<Rightarrow> None
                     | Some (x, y, a) \<Rightarrow>
                         Some (x + bone_length pb * cos a, y + bone_length pb * sin a,
                               a + rest_angle b + current_angle b)))))"





section \<open>The chain of the solver\<close>

text \<open>
  The names the solver gives to what it reads of the chain: \<^verbatim>\<open>root_pos\<close>, the position
  of the first bone; \<^verbatim>\<open>total_length\<close>, the sum of the lengths; and the list
  \<^verbatim>\<open>positions\<close> before either branch runs.
\<close>

definition root_pos :: "Bone list \<Rightarrow> point" where
  "root_pos chain = (world_x (hd chain), world_y (hd chain))"

definition total_length :: "Bone list \<Rightarrow> real" where
  "total_length chain = sum_list (map bone_length chain)"

definition start_positions :: "Bone list \<Rightarrow> point list" where
  "start_positions chain =
     map (\<lambda>bone. (world_x bone, world_y bone)) chain @ [(tip_x (last chain), tip_y (last chain))]"

text \<open>
  The point at distance \<open>s\<close> from \<open>q\<close> on the ray from \<open>q\<close> through \<open>t\<close> (for \<open>0 \<le> s\<close>
  and \<open>q \<noteq> t\<close>).
\<close>

definition on_ray :: "point \<Rightarrow> point \<Rightarrow> real \<Rightarrow> point" where
  "on_ray q t s =
     (fst q + s / math_dist q t * (fst t - fst q), snd q + s / math_dist q t * (snd t - snd q))"

section \<open>Runs of the animator\<close>

text \<open>
  What \<open>update\<close> makes of every field but the skeleton: nothing when the animator is
  stopped or paused, the clock and the timer otherwise.
\<close>

definition tick :: "Animator \<Rightarrow> real \<Rightarrow> Animator" where
  "tick a dt = (if state a = STOPPED \<or> state a = PAUSED then a else advance a dt)"

text \<open>
  The animators a caller can get: a new one, and what any call leaves of one, whether the
  call returns or raises. \<open>update\<close> is called with \<open>dt \<ge> 0\<close>.
\<close>

inductive reachable :: "Animator \<Rightarrow> bool" where
  init: "reachable (Animator_init sk cs)"
| add_clip: "reachable a \<Longrightarrow> reachable (add_clip a clip)"
| play: "reachable a \<Longrightarrow> reachable (snd (play a n reset_time speed))"
| stop: "reachable a \<Longrightarrow> reachable (stop a)"
| pause: "reachable a \<Longrightarrow> reachable (pause a)"
| resume: "reachable a \<Longrightarrow> reachable (resume a)"
| blend: "reachable a \<Longrightarrow> reachable (snd (blend a clip1 clip2 alpha))"
| transition_to: "reachable a \<Longrightarrow> reachable (snd (transition_to a n dur))"
| update: "reachable a \<Longrightarrow> 0 \<le> dt \<Longrightarrow> update a dt = Some a' \<Longrightarrow> reachable a'"

text \<open>The end of a transition to the clip \<open>n\<close>.\<close>

definition transition_done :: "string \<Rightarrow> Animator \<Rightarrow> bool" where
  "transition_done n a \<longleftrightarrow> state a = PLAYING \<and> current_clip a = Some n \<and> blend_clip a = None"

text \<open>
  The values \<^verbatim>\<open>_blend_time\<close> takes in a run of \<open>update\<close> calls that stays in the
  timed transition: each \<open>dt\<close> added to the timer, the sum rounded.
\<close>

fun timer_values :: "real \<Rightarrow> real list \<Rightarrow> real list" where
  "timer_values bt [] = []"
| "timer_values bt (dt # dts) = fadd bt dt # timer_values (fadd bt dt) dts"

section \<open>Concrete inputs\<close>

text \<open>A skeleton of two bones in a chain, two clips of two keyframes, and their animator.\<close>

definition demo_bone :: "int \<Rightarrow> int option \<Rightarrow> real \<Rightarrow> Bone" where
  "demo_bone i p len =
     \<lparr>bone_id = i, bone_name = ''bone'', parent_id = p, bone_length = len, rest_angle = 0,
      current_angle = 0, world_x = 0, world_y = 0, world_angle = 0, weight = 1\<rparr>"

definition demo_skeleton :: Skeleton where
  "demo_skeleton = Skeleton_init [demo_bone 0 None 1, demo_bone 1 (Some 0) 1]"

definition demo_clip :: "string \<Rightarrow> LoopMode \<Rightarrow> real \<Rightarrow> real \<Rightarrow> Clip" where
  "demo_clip n m t1 ang =
     \<lparr>clip_name = n,
      keyframes = [\<lparr>kf_time = 0, bone_angles = [1 \<mapsto> 0], easing = LINEAR\<rparr>,
                   \<lparr>kf_time = t1, bone_angles = [1 \<mapsto> ang], easing = LINEAR\<rparr>],
      loop = True, fps = 24, loop_mode = m\<rparr>"

definition demo_animator :: Animator where
  "demo_animator =
     Animator_init demo_skeleton [''a'' \<mapsto> demo_clip ''a'' LOOP 2 4, ''b'' \<mapsto> demo_clip ''b'' ONCE 1 2]"

text \<open>
  The animator after \<^verbatim>\<open>play("a")\<close>, \<^verbatim>\<open>transition_to("b", 1.0)\<close> and
  \<^verbatim>\<open>blend("a", "b", 0.5)\<close>.
\<close>

definition stale_timer_animator :: Animator where
  "stale_timer_animator =
     snd (blend (snd (transition_to (snd (play demo_animator ''a'' True 1)) ''b'' 1)) ''a'' ''b'' (1 / 2))"

text \<open>A clip in \<^verbatim>\<open>ONCE\<close> mode whose two keyframes have the same time.\<close>

definition dup_clip :: Clip where
  "dup_clip =
     \<lparr>clip_name = ''dup'',
      keyframes = [\<lparr>kf_time = 1, bone_angles = [1 \<mapsto> 0], easing = LINEAR\<rparr>,
                   \<lparr>kf_time = 1, bone_angles = [1 \<mapsto> 5], easing = LINEAR\<rparr>],
      loop = False, fps = 24, loop_mode = ONCE\<rparr>"

text \<open>
  The skeleton of two bones after forward kinematics: both bones along the x axis, the
  second one starting at \<open>(1, 0)\<close>.
\<close>

definition demo_posed :: Skeleton where
  "demo_posed = Skeleton_init [demo_bone 0 None 1, (demo_bone 1 (Some 0) 1)\<lparr>world_x := 1\<rparr>]"

text \<open>
  A chain of three bones whose middle bone has a negative length (nothing in the code
  refuses one), as the constructors leave it.
\<close>

definition neg_skeleton :: Skeleton where
  "neg_skeleton =
     Skeleton_init [demo_bone 0 None 4, demo_bone 1 (Some 0) (- 6), demo_bone 2 (Some 1) 3]"

text \<open>The double that the literal \<^verbatim>\<open>0.1\<close> denotes, \<open>0x1.999999999999ap-4\<close>.\<close>

definition tenth :: real where
  "tenth = 3602879701896397 / 2 ^ 55"
section \<open>Rounding to the nearest double\<close>

text \<open>
  What is needed of the rounding: it keeps a double as it is, it keeps the sign, it does
  not fall below 1 from above, and its value at a number of a known binade.
\<close>

lemma round_half_even_of_int: "round_half_even (of_int n) = n"
  by (simp add: round_half_even_def)

lemma round_half_even_ge_floor: "\<lfloor>y\<rfloor> \<le> round_half_even y"
  by (simp add: round_half_even_def Let_def)

lemma ulp_exponent_binade:
  assumes "2 powr of_int k \<le> \<bar>x\<bar>" "\<bar>x\<bar> < 2 powr (of_int k + 1)"
  shows "ulp_exponent x = max (k - 52) (- 1074)"
proof -
  have "0 < \<bar>x\<bar>" using assms(1) by (smt (verit) powr_gt_zero)
  then have "\<lfloor>log 2 \<bar>x\<bar>\<rfloor> = k"
    using assms by (simp add: floor_log_eq_powr_iff)
  then show ?thesis by (simp add: ulp_exponent_def)
qed

lemma fl_eval:
  assumes "2 powr of_int k \<le> \<bar>x\<bar>" "\<bar>x\<bar> < 2 powr (of_int k + 1)" "- 1022 \<le> k"
    and "u = 2 powr of_int (k - 52)" "round_half_even (x / u) = n"
  shows "fl x = of_int n * u"
proof -
  have "x \<noteq> 0" using assms(1) by (smt (verit) powr_gt_zero)
  moreover have "ulp_exponent x = k - 52"
    using ulp_exponent_binade[OF assms(1,2)] assms(3) by simp
  ultimately show ?thesis using assms(4,5) by (simp add: fl_def)
qed

lemma fl_0: "fl 0 = 0"
  by (simp add: fl_def)

lemma fl_nonneg: "0 \<le> x \<Longrightarrow> 0 \<le> fl x"
proof (cases "x = 0")
  case True then show ?thesis by (simp add: fl_0)
next
  case False
  assume "0 \<le> x"
  then have "0 \<le> x / 2 powr of_int (ulp_exponent x)" by simp
  then have "0 \<le> \<lfloor>x / 2 powr of_int (ulp_exponent x)\<rfloor>" by simp
  with round_half_even_ge_floor[of "x / 2 powr of_int (ulp_exponent x)"]
  have "0 \<le> round_half_even (x / 2 powr of_int (ulp_exponent x))" by linarith
  with False show ?thesis by (simp add: fl_def)
qed

lemma fl_ge_1: "1 \<le> x \<Longrightarrow> 1 \<le> fl x"
proof -
  assume x: "1 \<le> x"
  define k where "k = \<lfloor>log 2 \<bar>x\<bar>\<rfloor>"
  have ax: "\<bar>x\<bar> = x" using x by simp
  have kb: "2 powr of_int k \<le> x" "x < 2 powr (of_int k + 1)"
    using x floor_log_eq_powr_iff[of x 2 k] by (simp_all add: k_def ax)
  have k0: "0 \<le> k" using x by (simp add: k_def ax)
  have e: "ulp_exponent x = k - 52" using k0 by (simp add: ulp_exponent_def k_def)
  let ?u = "2 powr of_int (k - 52) :: real"
  have u: "0 < ?u" by simp
  have "2 powr of_int k / ?u = 2 powr 52"
    by (simp add: powr_diff[symmetric])
  moreover have "2 powr of_int k / ?u \<le> x / ?u"
    using kb(1) u by (intro divide_right_mono) simp_all
  ultimately have "2 ^ 52 \<le> x / ?u" by simp
  then have "(2 ^ 52 :: int) \<le> \<lfloor>x / ?u\<rfloor>" by (simp add: le_floor_iff)
  with round_half_even_ge_floor[of "x / ?u"] have "(2 ^ 52 :: int) \<le> round_half_even (x / ?u)"
    by linarith
  then have "(2 ^ 52 :: real) \<le> of_int (round_half_even (x / ?u))"
    by (metis of_int_le_iff of_int_numeral of_int_power)
  then have "2 ^ 52 * ?u \<le> of_int (round_half_even (x / ?u)) * ?u"
    using u by simp
  moreover have "2 ^ 52 * ?u = 2 powr of_int k"
    by (simp add: powr_diff)
  moreover have "(1 :: real) \<le> 2 powr of_int k" using k0 by (simp add: ge_one_powr_ge_zero)
  moreover have "fl x = of_int (round_half_even (x / ?u)) * ?u"
    using x e by (simp add: fl_def)
  ultimately show ?thesis by linarith
qed

lemma fl_exact:
  assumes "x = of_int n * 2 powr of_int e" "\<bar>n\<bar> < 2 ^ 53" "- 1074 \<le> e"
  shows "fl x = x"
proof (cases "n = 0")
  case True
  with assms(1) show ?thesis by (simp add: fl_0)
next
  case False
  then have x0: "x \<noteq> 0" using assms(1) by simp
  define k where "k = \<lfloor>log 2 \<bar>x\<bar>\<rfloor>"
  have ax: "\<bar>x\<bar> = of_int \<bar>n\<bar> * 2 powr of_int e" using assms(1) by (simp add: abs_mult)
  have "of_int \<bar>n\<bar> < (2 ^ 53 :: real)" using assms(2)
    by (metis of_int_less_iff of_int_numeral of_int_power)
  then have "\<bar>x\<bar> < 2 ^ 53 * 2 powr of_int e" unfolding ax by simp
  also have "\<dots> = 2 powr (of_int (52 + e) + 1)" by (simp add: powr_add)
  finally have lt: "\<bar>x\<bar> < 2 powr (of_int (52 + e) + 1)" .
  have "2 powr of_int k \<le> \<bar>x\<bar>"
    using x0 floor_log_eq_powr_iff[of "\<bar>x\<bar>" 2 k] by (simp add: k_def)
  with lt have "(2 :: real) powr of_int k < 2 powr (of_int (52 + e) + 1)" by linarith
  then have "of_int k < (of_int (52 + e) + 1 :: real)" by simp
  then have "k \<le> 52 + e" by linarith
  with assms(3) have le: "ulp_exponent x \<le> e" by (simp add: ulp_exponent_def k_def)
  define E where "E = ulp_exponent x"
  have "x / 2 powr of_int E = of_int n * 2 powr of_int (e - E)"
    unfolding assms(1) by (simp add: powr_diff)
  also have "2 powr of_int (e - E) = (2 :: real) ^ nat (e - E)"
    using le by (simp add: E_def powr_realpow[symmetric])
  also have "of_int n * 2 ^ nat (e - E) = (of_int (n * 2 ^ nat (e - E)) :: real)" by simp
  finally have "round_half_even (x / 2 powr of_int E) = n * 2 ^ nat (e - E)"
    by (simp only: round_half_even_of_int)
  then have "fl x = of_int (n * 2 ^ nat (e - E)) * 2 powr of_int E"
    using x0 by (simp add: fl_def E_def)
  also have "\<dots> = of_int n * (2 powr of_int (e - E) * 2 powr of_int E)"
    using le by (simp add: E_def powr_realpow[symmetric])
  also have "2 powr of_int (e - E) * 2 powr of_int E = (2 :: real) powr of_int e"
    by (simp add: powr_add[symmetric])
  finally show ?thesis using assms(1) by simp
qed


lemma fl_eval_frac:
  assumes "m \<le> 1074" "2 ^ 52 \<le> \<bar>x\<bar> * 2 ^ m" "\<bar>x\<bar> * 2 ^ m < 2 ^ 53"
    and "round_half_even (x * 2 ^ m) = n"
  shows "fl x = of_int n / 2 ^ m"
proof -
  let ?k = "52 - int m"
  have p: "(2 :: real) powr of_int ?k = 2 ^ 52 / 2 ^ m"
    by (simp add: powr_diff powr_realpow[symmetric])
  have q: "(2 :: real) powr (of_int ?k + 1) = 2 ^ 53 / 2 ^ m"
    by (simp add: powr_diff powr_add powr_realpow[symmetric])
  have u: "(1 / 2 ^ m :: real) = 2 powr of_int (?k - 52)"
    by (simp add: powr_minus powr_realpow[symmetric] divide_inverse)
  have 1: "2 powr of_int ?k \<le> \<bar>x\<bar>" unfolding p using assms(2) by (simp add: field_simps)
  have 2: "\<bar>x\<bar> < 2 powr (of_int ?k + 1)" unfolding q using assms(3) by (simp add: field_simps)
  have 3: "- 1022 \<le> ?k" using assms(1) by simp
  have 4: "round_half_even (x / (1 / 2 ^ m)) = n" using assms(4) by simp
  from fl_eval[OF 1 2 3 u 4] show ?thesis by simp
qed

lemma fl_exact_frac:
  assumes "\<bar>n\<bar> < 2 ^ 53" "m \<le> 1074"
  shows "fl (of_int n / 2 ^ m) = of_int n / 2 ^ m"
proof -
  have eq: "(of_int n / 2 ^ m :: real) = of_int n * 2 powr of_int (- int m)"
    by (simp add: powr_minus powr_realpow[symmetric] divide_inverse)
  have "- 1074 \<le> - int m" using assms(2) by simp
  from fl_exact[OF eq assms(1) this] show ?thesis .
qed

lemma fl_of_int: "\<bar>n\<bar> < 2 ^ 53 \<Longrightarrow> fl (of_int n) = of_int n"
  using fl_exact_frac[of n 0] by simp

section \<open>Building a skeleton\<close>

text \<open>
  A skeleton built by \<^verbatim>\<open>Skeleton.__init__\<close> and \<^verbatim>\<open>add_bone\<close> has one bone for each id,
  and a list of bones with distinct ids is stored as it is.
\<close>

lemma find_None_id: "i \<notin> bone_id ` set bs \<Longrightarrow> find (\<lambda>b. bone_id b = i) bs = None"
  by (induction bs) auto

lemma find_Some_id: "i \<in> bone_id ` set bs \<Longrightarrow> find (\<lambda>b. bone_id b = i) bs \<noteq> None"
  by (induction bs) auto

lemma wf_add_bone: "wf_skeleton sk \<Longrightarrow> wf_skeleton (add_bone sk bone)"
proof (cases "get_bone sk (bone_id bone) = None")
  case True
  assume wf: "wf_skeleton sk"
  from True have "bone_id bone \<notin> bone_id ` set (bones sk)"
    using find_Some_id[of "bone_id bone" "bones sk"] by (auto simp: get_bone_def)
  with wf True show ?thesis by (simp add: add_bone_def wf_skeleton_def)
next
  case False
  assume wf: "wf_skeleton sk"
  have "map bone_id (map (\<lambda>b. if bone_id b = bone_id bone then bone else b) bs) = map bone_id bs"
    for bs
    by (induction bs) auto
  then have "wf_skeleton (sk\<lparr>bones := map (\<lambda>b. if bone_id b = bone_id bone then bone else b) (bones sk)\<rparr>)"
    using wf by (simp add: wf_skeleton_def del: map_map)
  with False show ?thesis by (auto simp: add_bone_def)
qed

lemma foldl_add_bone_wf:
  "wf_skeleton sk \<Longrightarrow> wf_skeleton (foldl add_bone sk bs)"
  by (induction bs arbitrary: sk) (simp_all add: wf_add_bone)

lemma wf_Skeleton_init: "wf_skeleton (Skeleton_init bs)"
  unfolding Skeleton_init_def by (rule foldl_add_bone_wf) (simp add: wf_skeleton_def)

lemma foldl_add_bone_distinct:
  "distinct (map bone_id (acc @ bs)) \<Longrightarrow>
   foldl add_bone \<lparr>bones = acc, root_x = x, root_y = y\<rparr> bs = \<lparr>bones = acc @ bs, root_x = x, root_y = y\<rparr>"
proof (induction bs arbitrary: acc)
  case Nil
  then show ?case by simp
next
  case (Cons b bs)
  from Cons.prems have "bone_id b \<notin> bone_id ` set acc" by auto
  then have "add_bone \<lparr>bones = acc, root_x = x, root_y = y\<rparr> b
      = \<lparr>bones = acc @ [b], root_x = x, root_y = y\<rparr>"
    by (simp add: add_bone_def get_bone_def find_None_id)
  moreover have "distinct (map bone_id ((acc @ [b]) @ bs))" using Cons.prems by simp
  ultimately show ?case using Cons.IH[of "acc @ [b]"] by simp
qed

lemma Skeleton_init_distinct:
  "distinct (map bone_id bs) \<Longrightarrow> Skeleton_init bs = \<lparr>bones = bs, root_x = 0, root_y = 0\<rparr>"
  unfolding Skeleton_init_def using foldl_add_bone_distinct[of "[]" bs 0 0] by simp

lemma demo_skeleton_bones:
  "demo_skeleton = \<lparr>bones = [demo_bone 0 None 1, demo_bone 1 (Some 0) 1], root_x = 0, root_y = 0\<rparr>"
  unfolding demo_skeleton_def by (rule Skeleton_init_distinct) (simp add: demo_bone_def)

lemma demo_posed_bones:
  "demo_posed = \<lparr>bones = [demo_bone 0 None 1, (demo_bone 1 (Some 0) 1)\<lparr>world_x := 1\<rparr>],
                 root_x = 0, root_y = 0\<rparr>"
  unfolding demo_posed_def by (rule Skeleton_init_distinct) (simp add: demo_bone_def)

section \<open>Forward kinematics returns\<close>

lemma same_static_refl: "same_static sk sk"
  by (simp add: same_static_def)

lemma same_static_trans: "same_static sk sk1 \<Longrightarrow> same_static sk1 sk2 \<Longrightarrow> same_static sk sk2"
  by (simp add: same_static_def)

lemma find_static:
  "map static_of bs' = map static_of bs \<Longrightarrow>
   map_option static_of (find (\<lambda>b. bone_id b = i) bs') = map_option static_of (find (\<lambda>b. bone_id b = i) bs)"
proof (induction bs arbitrary: bs')
  case Nil
  then show ?case by simp
next
  case (Cons b bs)
  then obtain b' bs'' where bs': "bs' = b' # bs''" by (cases bs') auto
  with Cons.prems have eq: "static_of b' = static_of b" "map static_of bs'' = map static_of bs"
    by auto
  from eq(1) have "bone_id b' = bone_id b" by (simp add: static_of_def)
  with Cons.IH[OF eq(2)] eq(1) show ?case by (simp add: bs')
qed

lemma get_bone_static:
  "same_static sk sk' \<Longrightarrow> map_option static_of (get_bone sk' i) = map_option static_of (get_bone sk i)"
  unfolding same_static_def get_bone_def by (rule find_static) simp

lemma get_bone_static_None:
  "same_static sk sk' \<Longrightarrow> get_bone sk' i = None \<longleftrightarrow> get_bone sk i = None"
  using get_bone_static[of sk sk' i] by (metis map_option_is_None)

lemma get_bone_static_parent:
  assumes "same_static sk sk'" "get_bone sk i = Some b"
  shows "\<exists>b'. get_bone sk' i = Some b' \<and> static_of b' = static_of b"
  using get_bone_static[OF assms(1), of i] assms(2) by (cases "get_bone sk' i") auto

lemma at_depth_static: "same_static sk sk' \<Longrightarrow> at_depth sk' n i = at_depth sk n i"
proof (induction n arbitrary: i)
  case 0
  show ?case
  proof (cases "get_bone sk i")
    case None
    with get_bone_static_None[OF 0, of i] show ?thesis by simp
  next
    case (Some b)
    from get_bone_static_parent[OF 0 Some] obtain b' where "get_bone sk' i = Some b'" "static_of b' = static_of b"
      by blast
    with Some show ?thesis by (simp add: static_of_def)
  qed
next
  case (Suc n)
  show ?case
  proof (cases "get_bone sk i")
    case None
    with get_bone_static_None[OF Suc.prems, of i] show ?thesis by simp
  next
    case (Some b)
    from get_bone_static_parent[OF Suc.prems Some] obtain b' where "get_bone sk' i = Some b'" "static_of b' = static_of b"
      by blast
    with Some Suc.IH[OF Suc.prems] show ?thesis by (simp add: static_of_def split: option.splits)
  qed
qed

lemma wf_static: "same_static sk sk' \<Longrightarrow> wf_skeleton sk' = wf_skeleton sk"
proof -
  assume "same_static sk sk'"
  then have "map (fst \<circ> static_of) (bones sk') = map (fst \<circ> static_of) (bones sk)"
    unfolding same_static_def by (metis map_map)
  moreover have "fst \<circ> static_of = bone_id" by (auto simp: static_of_def)
  ultimately show ?thesis by (simp add: wf_skeleton_def)
qed

lemma length_static: "same_static sk sk' \<Longrightarrow> length (bones sk') = length (bones sk)"
  unfolding same_static_def by (metis length_map)

lemma upd_bone_static:
  "(\<And>b. static_of (f b) = static_of b) \<Longrightarrow> same_static sk (upd_bone sk bid f)"
  by (simp add: same_static_def upd_bone_def)

lemma process_static:
  "process n bid px py pa sk = Some sk' \<Longrightarrow> same_static sk sk'"
  "process_children n bid cs sk = Some sk' \<Longrightarrow> same_static sk sk'"
proof (induction n bid px py pa sk and n bid cs sk arbitrary: sk' and sk' rule: process_process_children.induct)
  case (1 bid px py pa sk)
  then show ?case by simp
next
  case (2 n bid px py pa sk)
  show ?case
  proof (cases "get_bone sk bid")
    case None
    with 2 show ?thesis by (simp add: same_static_refl)
  next
    case (Some bone)
    let ?sk1 = "upd_bone sk bid (\<lambda>b. b\<lparr>world_x := px, world_y := py,
                        world_angle := pa + rest_angle b + current_angle b\<rparr>)"
    have s1: "same_static sk ?sk1" by (rule upd_bone_static) (simp add: static_of_def)
    from 2(2) Some have "process_children n bid (map bone_id (get_children ?sk1 bid)) ?sk1 = Some sk'"
      by (simp add: Let_def)
    from 2(1)[OF Some refl this] s1 show ?thesis by (rule same_static_trans[rotated])
  qed
next
  case (3 n bid sk)
  then show ?case by (simp add: same_static_refl)
next
  case (4 n bid c cs sk)
  from 4(3) obtain bone where b: "get_bone sk bid = Some bone" by (auto split: option.splits)
  with 4(3) obtain sk1 where p: "process n c (tip_x bone) (tip_y bone) (world_angle bone) sk = Some sk1"
    and r: "process_children n bid cs sk1 = Some sk'"
    by (auto split: option.splits)
  from 4(1)[OF b p] 4(2)[OF b p r] show ?case by (rule same_static_trans)
qed


lemma at_depth_unique: "at_depth sk n i \<Longrightarrow> at_depth sk m i \<Longrightarrow> n = m"
proof (induction n arbitrary: m i)
  case 0
  then show ?case by (cases m) (auto split: option.splits)
next
  case (Suc n)
  then show ?case by (cases m) (auto split: option.splits)
qed

lemma at_depth_in_bones: "at_depth sk n i \<Longrightarrow> i \<in> bone_id ` set (bones sk)"
  by (cases n) (auto split: option.splits dest: get_bone_SomeD)

lemma at_depth_chain:
  "at_depth sk n i \<Longrightarrow>
   \<exists>S. S \<subseteq> bone_id ` set (bones sk) \<and> card S = Suc n \<and> (\<forall>j\<in>S. \<exists>m\<le>n. at_depth sk m j)"
proof (induction n arbitrary: i)
  case 0
  then have "{i} \<subseteq> bone_id ` set (bones sk) \<and> card {i} = Suc 0 \<and> (\<forall>j\<in>{i}. \<exists>m\<le>0. at_depth sk m j)"
    using at_depth_in_bones[OF 0] by auto
  then show ?case by blast
next
  case (Suc n)
  from Suc.prems obtain b p where b: "get_bone sk i = Some b" "parent_id b = Some p" "at_depth sk n p"
    by (auto split: option.splits)
  from Suc.IH[OF b(3)] obtain S where S: "S \<subseteq> bone_id ` set (bones sk)" "card S = Suc n"
      "\<forall>j\<in>S. \<exists>m\<le>n. at_depth sk m j"
    by blast
  have fin: "finite S" using S(1) by (rule finite_subset) simp
  have "i \<notin> S"
  proof
    assume "i \<in> S"
    with S(3) obtain m where "m \<le> n" "at_depth sk m i" by blast
    with at_depth_unique[OF Suc.prems this(2)] show False by simp
  qed
  with fin S(2) have c: "card (insert i S) = Suc (Suc n)" by simp
  have sub: "insert i S \<subseteq> bone_id ` set (bones sk)"
    using S(1) at_depth_in_bones[OF Suc.prems] by simp
  have "\<forall>j\<in>insert i S. \<exists>m\<le>Suc n. at_depth sk m j"
  proof
    fix j assume "j \<in> insert i S"
    then consider "j = i" | "j \<in> S" by blast
    then show "\<exists>m\<le>Suc n. at_depth sk m j"
    proof cases
      case 1
      with Suc.prems show ?thesis by blast
    next
      case 2
      with S(3) obtain m where "m \<le> n" "at_depth sk m j" by blast
      then show ?thesis using le_SucI by blast
    qed
  qed
  with c sub show ?case by blast
qed

lemma at_depth_bound: "at_depth sk n i \<Longrightarrow> n < length (bones sk)"
proof -
  assume "at_depth sk n i"
  from at_depth_chain[OF this] obtain S where S: "S \<subseteq> bone_id ` set (bones sk)" "card S = Suc n"
    by blast
  have "card S \<le> card (bone_id ` set (bones sk))" using S(1) by (intro card_mono) auto
  also have "\<dots> \<le> card (set (bones sk))" by (rule card_image_le) simp
  also have "\<dots> \<le> length (bones sk)" by (rule card_length)
  finally show ?thesis using S(2) by simp
qed

lemma find_distinct:
  "distinct (map bone_id bs) \<Longrightarrow> b \<in> set bs \<Longrightarrow> find (\<lambda>x. bone_id x = bone_id b) bs = Some b"
  by (induction bs) auto

lemma get_bone_wf:
  "wf_skeleton sk \<Longrightarrow> b \<in> set (bones sk) \<Longrightarrow> get_bone sk (bone_id b) = Some b"
  unfolding wf_skeleton_def get_bone_def by (rule find_distinct)


lemma at_depth_child:
  assumes "wf_skeleton sk" "at_depth sk d bid" "b \<in> set (get_children sk bid)"
  shows "at_depth sk (Suc d) (bone_id b)"
proof -
  from assms(3) have "b \<in> set (bones sk)" "parent_id b = Some bid"
    by (auto simp: get_children_def)
  with get_bone_wf[OF assms(1) this(1)] assms(2) show ?thesis by simp
qed

lemma process_children_returns:
  assumes IH: "\<And>sk c px py pa. wf_skeleton sk \<Longrightarrow> at_depth sk (Suc d) c \<Longrightarrow>
                 length (bones sk) \<le> Suc d + n \<Longrightarrow> process n c px py pa sk \<noteq> None"
  shows "wf_skeleton sk \<Longrightarrow> \<forall>c\<in>set cs. at_depth sk (Suc d) c \<Longrightarrow> get_bone sk bid \<noteq> None \<Longrightarrow>
         length (bones sk) \<le> Suc d + n \<Longrightarrow> process_children n bid cs sk \<noteq> None"
proof (induction cs arbitrary: sk)
  case Nil
  then show ?case by simp
next
  case (Cons c cs)
  from Cons.prems(3) obtain bone where b: "get_bone sk bid = Some bone" by auto
  from IH[OF Cons.prems(1) _ Cons.prems(4), of c "tip_x bone" "tip_y bone" "world_angle bone"] Cons.prems(2)
  obtain sk1 where p: "process n c (tip_x bone) (tip_y bone) (world_angle bone) sk = Some sk1"
    by auto
  from process_static(1)[OF p] have st: "same_static sk sk1" .
  have "process_children n bid cs sk1 \<noteq> None"
  proof (rule Cons.IH)
    show "wf_skeleton sk1" using st Cons.prems(1) by (simp add: wf_static)
    show "\<forall>c\<in>set cs. at_depth sk1 (Suc d) c" using st Cons.prems(2) by (simp add: at_depth_static del: at_depth.simps)
    show "get_bone sk1 bid \<noteq> None" using st Cons.prems(3) by (simp add: get_bone_static_None)
    show "length (bones sk1) \<le> Suc d + n" using st Cons.prems(4) by (simp add: length_static)
  qed
  with b p show ?case by simp
qed

lemma process_returns:
  "wf_skeleton sk \<Longrightarrow> at_depth sk d bid \<Longrightarrow> length (bones sk) \<le> d + n \<Longrightarrow>
   process n bid px py pa sk \<noteq> None"
proof (induction n arbitrary: sk d bid px py pa)
  case 0
  with at_depth_bound[OF 0(2)] show ?case by simp
next
  case (Suc n)
  from Suc.prems(2) obtain bone where b: "get_bone sk bid = Some bone"
    by (cases d) (auto split: option.splits)
  let ?sk1 = "upd_bone sk bid (\<lambda>b. b\<lparr>world_x := px, world_y := py,
                        world_angle := pa + rest_angle b + current_angle b\<rparr>)"
  have st: "same_static sk ?sk1" by (rule upd_bone_static) (simp add: static_of_def)
  have wf1: "wf_skeleton ?sk1" using st Suc.prems(1) by (simp add: wf_static)
  have d1: "at_depth ?sk1 d bid" using st Suc.prems(2) by (simp add: at_depth_static del: at_depth.simps)
  have "process_children n bid (map bone_id (get_children ?sk1 bid)) ?sk1 \<noteq> None"
  proof (rule process_children_returns[where d = d])
    fix sk' c px' py' pa'
    assume "wf_skeleton sk'" "at_depth sk' (Suc d) c" "length (bones sk') \<le> Suc d + n"
    then show "process n c px' py' pa' sk' \<noteq> None" by (rule Suc.IH)
  next
    show "wf_skeleton ?sk1" by (rule wf1)
    show "\<forall>c\<in>set (map bone_id (get_children ?sk1 bid)). at_depth ?sk1 (Suc d) c"
      using at_depth_child[OF wf1 d1] by auto
    show "get_bone ?sk1 bid \<noteq> None" using st b by (simp add: get_bone_static_None)
    show "length (bones ?sk1) \<le> Suc d + n" using st Suc.prems(3) by (simp add: length_static)
  qed
  with b show ?case by (simp add: Let_def)
qed

lemma process_roots_static:
  "process_roots n rs sk = Some sk' \<Longrightarrow> same_static sk sk'"
proof (induction rs arbitrary: sk)
  case Nil
  then show ?case by (simp add: same_static_refl)
next
  case (Cons r rs)
  then obtain sk1 where p: "process n r (root_x sk) (root_y sk) 0 sk = Some sk1"
    and r: "process_roots n rs sk1 = Some sk'"
    by (auto split: option.splits)
  from process_static(1)[OF p] Cons.IH[OF r] show ?case by (rule same_static_trans)
qed

lemma process_roots_returns:
  "wf_skeleton sk \<Longrightarrow> \<forall>r\<in>set rs. at_depth sk 0 r \<Longrightarrow> length (bones sk) \<le> n \<Longrightarrow>
   process_roots n rs sk \<noteq> None"
proof (induction rs arbitrary: sk)
  case Nil
  then show ?case by simp
next
  case (Cons r rs)
  from process_returns[OF Cons.prems(1), of 0 r n "root_x sk" "root_y sk" 0] Cons.prems(2,3)
  obtain sk1 where p: "process n r (root_x sk) (root_y sk) 0 sk = Some sk1" by auto
  from process_static(1)[OF p] have st: "same_static sk sk1" .
  have "process_roots n rs sk1 \<noteq> None"
    using st Cons.prems
    by (intro Cons.IH) (simp_all add: wf_static at_depth_static length_static del: at_depth.simps)
  with p show ?case by simp
qed

lemma at_depth_root:
  assumes "wf_skeleton sk" "b \<in> set (root_bones sk)"
  shows "at_depth sk 0 (bone_id b)"
proof -
  from assms(2) have "b \<in> set (bones sk)" "parent_id b = None" by (auto simp: root_bones_def)
  with get_bone_wf[OF assms(1) this(1)] show ?thesis by simp
qed

lemma fk_returns_aux:
  "wf_skeleton sk \<Longrightarrow> \<exists>sk'. calculate_forward_kinematics sk = Some sk' \<and> same_static sk sk'"
proof -
  assume wf: "wf_skeleton sk"
  have "process_roots (length (bones sk)) (map bone_id (root_bones sk)) sk \<noteq> None"
    using wf at_depth_root[OF wf] by (intro process_roots_returns) auto
  then show ?thesis
    unfolding calculate_forward_kinematics_def using process_roots_static by blast
qed

section \<open>What forward kinematics computes\<close>




lemma at_depth_fk_world: "at_depth sk n i \<Longrightarrow> \<exists>w. fk_world sk n i = Some w"
proof (induction n arbitrary: i)
  case 0
  then show ?case by (auto split: option.splits)
next
  case (Suc n)
  from Suc.prems obtain b p where b: "get_bone sk i = Some b" "parent_id b = Some p" "at_depth sk n p"
    by (auto split: option.splits)
  from Suc.IH[OF b(3)] obtain w where w: "fk_world sk n p = Some w" by blast
  from b(3) obtain pb where "get_bone sk p = Some pb" by (cases n) (auto split: option.splits)
  with b w show ?case by (cases w) auto
qed







lemma find_map_upd:
  "(\<And>b. bone_id (f b) = bone_id b) \<Longrightarrow>
   find (\<lambda>b. bone_id b = i) (map (\<lambda>b. if bone_id b = bid then f b else b) bs)
     = (if i = bid then map_option f (find (\<lambda>b. bone_id b = i) bs) else find (\<lambda>b. bone_id b = i) bs)"
  by (induction bs) auto

lemma get_bone_upd:
  "(\<And>b. bone_id (f b) = bone_id b) \<Longrightarrow>
   get_bone (upd_bone sk bid f) i = (if i = bid then map_option f (get_bone sk i) else get_bone sk i)"
  unfolding get_bone_def upd_bone_def by (simp add: find_map_upd)













text \<open>The two bones of the concrete skeleton after forward kinematics, evaluated.\<close>

lemma fk_demo:
  "map_option (\<lambda>sk. map (\<lambda>b. (bone_id b, world_x b, world_y b, world_angle b)) (bones sk))
     (calculate_forward_kinematics demo_skeleton) = Some [(0, 0, 0, 0), (1, 1, 0, 0)]"
  by (simp add: calculate_forward_kinematics_def demo_skeleton_bones demo_bone_def
      root_bones_def get_bone_def upd_bone_def get_children_def tip_x_def tip_y_def)


section \<open>What the solver computes\<close>

subsection \<open>Distances and the ray to the target\<close>

lemma math_dist_nonneg: "0 \<le> math_dist p q"
  by (simp add: math_dist_def)

lemma math_dist_eq_0: "math_dist p q = 0 \<longleftrightarrow> p = q"
  by (auto simp: math_dist_def prod_eq_iff sum_power2_eq_zero_iff real_sqrt_eq_zero_cancel_iff)

lemma math_dist_sq: "(math_dist p q)\<^sup>2 = (fst p - fst q)\<^sup>2 + (snd p - snd q)\<^sup>2"
  by (simp add: math_dist_def)

lemma math_dist_scaled:
  assumes "fst p - fst q = c * a" "snd p - snd q = c * b"
  shows "math_dist p q = \<bar>c\<bar> * sqrt (a\<^sup>2 + b\<^sup>2)"
proof -
  have "(fst p - fst q)\<^sup>2 + (snd p - snd q)\<^sup>2 = c\<^sup>2 * (a\<^sup>2 + b\<^sup>2)"
    unfolding assms by (simp add: power_mult_distrib algebra_simps)
  then show ?thesis
    by (simp add: math_dist_def real_sqrt_mult)
qed

lemma on_ray_0: "on_ray q t 0 = q"
  by (simp add: on_ray_def)

lemma dist_on_ray_target:
  assumes "0 < math_dist q t" "s \<le> math_dist q t"
  shows "math_dist (on_ray q t s) t = math_dist q t - s"
proof -
  let ?D = "math_dist q t"
  have "fst (on_ray q t s) - fst t = (1 - s / ?D) * (fst q - fst t)"
    "snd (on_ray q t s) - snd t = (1 - s / ?D) * (snd q - snd t)"
    using assms(1) by (simp_all add: on_ray_def field_simps)
  from math_dist_scaled[OF this] have "math_dist (on_ray q t s) t = \<bar>1 - s / ?D\<bar> * ?D"
    by (simp add: math_dist_def)
  also have "\<bar>1 - s / ?D\<bar> = 1 - s / ?D" using assms by simp
  also have "(1 - s / ?D) * ?D = ?D - s" using assms(1) by (simp add: field_simps)
  finally show ?thesis .
qed

lemma dist_on_ray_root:
  assumes "0 < math_dist q t" "0 \<le> s"
  shows "math_dist q (on_ray q t s) = s"
proof -
  let ?D = "math_dist q t"
  have "fst q - fst (on_ray q t s) = (s / ?D) * (fst q - fst t)"
    "snd q - snd (on_ray q t s) = (s / ?D) * (snd q - snd t)"
    using assms(1) by (simp_all add: on_ray_def field_simps)
  from math_dist_scaled[OF this] have "math_dist q (on_ray q t s) = \<bar>s / ?D\<bar> * ?D"
    by (simp add: math_dist_def)
  then show ?thesis using assms by simp
qed

lemma dist_on_ray_on_ray:
  assumes "0 < math_dist q t" "0 \<le> l"
  shows "math_dist (on_ray q t s) (on_ray q t (s + l)) = l"
proof -
  let ?D = "math_dist q t"
  have "fst (on_ray q t s) - fst (on_ray q t (s + l)) = (l / ?D) * (fst q - fst t)"
    "snd (on_ray q t s) - snd (on_ray q t (s + l)) = (l / ?D) * (snd q - snd t)"
    using assms(1) by (simp_all add: on_ray_def field_simps)
  from math_dist_scaled[OF this] have "math_dist (on_ray q t s) (on_ray q t (s + l)) = \<bar>l / ?D\<bar> * ?D"
    by (simp add: math_dist_def)
  then show ?thesis using assms by simp
qed

lemma place_on_ray:
  assumes D: "0 < math_dist q t" and s: "s < math_dist q t"
  shows "place (math_dist (on_ray q t s) t) l (on_ray q t s) t = on_ray q t (s + l)"
proof -
  let ?D = "math_dist q t"
  have r: "math_dist (on_ray q t s) t = ?D - s" using dist_on_ray_target[OF D] s by simp
  have pos: "0 < ?D - s" using s by simp
  have ring: "(1 - a) * (x + b * (y - x)) + a * y = x + (b + a * (1 - b)) * (y - x)"
    for a b x y :: real
    by (simp add: algebra_simps)
  have "l / (?D - s) * (1 - s / ?D) = l / ?D"
    using D pos by (simp add: field_simps)
  then have "s / ?D + l / (?D - s) * (1 - s / ?D) = (s + l) / ?D"
    by (simp add: add_divide_distrib)
  then have k: "(1 - l / (?D - s)) * (x + s / ?D * (y - x)) + l / (?D - s) * y
        = x + (s + l) / ?D * (y - x)" for x y
    by (simp only: ring)
  have "place (?D - s) l (on_ray q t s) t = on_ray q t (s + l)"
    unfolding place_def Let_def on_ray_def fst_conv snd_conv
    by (simp only: pos if_True k)
  then show ?thesis by (simp only: r)
qed


lemma sum_take_bounds:
  fixes lens :: "real list"
  assumes "\<forall>l\<in>set lens. 0 \<le> l"
  shows "0 \<le> sum_list (take i lens)" "sum_list (take i lens) \<le> sum_list lens"
proof -
  have t: "\<forall>l\<in>set (take i lens). 0 \<le> l" and d: "\<forall>l\<in>set (drop i lens). 0 \<le> l"
    using assms by (auto dest: in_set_takeD in_set_dropD)
  from t show "0 \<le> sum_list (take i lens)" by (simp add: sum_list_nonneg)
  have "sum_list lens = sum_list (take i lens) + sum_list (drop i lens)"
    by (metis append_take_drop_id sum_list.append)
  moreover from d have "0 \<le> sum_list (drop i lens)" by (simp add: sum_list_nonneg)
  ultimately show "sum_list (take i lens) \<le> sum_list lens" by simp
qed

lemma stretch_steps:
  fixes lens :: "real list"
  assumes len: "length ps0 = Suc n" "length lens = n"
    and nn: "\<forall>l\<in>set lens. 0 \<le> l"
    and far: "sum_list lens < math_dist (ps0 ! 0) t"
  defines "step \<equiv> \<lambda>ps i. ps[Suc i := place (math_dist (ps ! i) t) (lens ! i) (ps ! i) t]"
  shows "k \<le> n \<Longrightarrow> length (foldl step ps0 [0..<k]) = Suc n \<and>
         (\<forall>i\<le>k. foldl step ps0 [0..<k] ! i = on_ray (ps0 ! 0) t (sum_list (take i lens)))"
proof (induction k)
  case 0
  show ?case by (simp add: len on_ray_0)
next
  case (Suc k)
  let ?P = "foldl step ps0 [0..<k]"
  from Suc have IH: "length ?P = Suc n"
    "\<And>i. i \<le> k \<Longrightarrow> ?P ! i = on_ray (ps0 ! 0) t (sum_list (take i lens))" by simp_all
  have k: "k < n" using Suc.prems by simp
  have D: "0 < math_dist (ps0 ! 0) t"
    using far sum_take_bounds[OF nn, of n] len(2) by simp
  have sk: "sum_list (take k lens) < math_dist (ps0 ! 0) t"
    using far sum_take_bounds(2)[OF nn, of k] by simp
  have next_sum: "sum_list (take (Suc k) lens) = sum_list (take k lens) + lens ! k"
    using k len(2) by (simp add: take_Suc_conv_app_nth)
  have new: "place (math_dist (?P ! k) t) (lens ! k) (?P ! k) t
      = on_ray (ps0 ! 0) t (sum_list (take (Suc k) lens))"
    unfolding IH(2)[OF order_refl] next_sum by (rule place_on_ray[OF D sk])
  have unf: "foldl step ps0 [0..<Suc k] = ?P[Suc k := place (math_dist (?P ! k) t) (lens ! k) (?P ! k) t]"
    by (simp add: step_def)
  have "foldl step ps0 [0..<Suc k] ! i = on_ray (ps0 ! 0) t (sum_list (take i lens))"
    if "i \<le> Suc k" for i
  proof (cases "i = Suc k")
    case True
    with k IH(1) show ?thesis unfolding unf by (simp add: new)
  next
    case False
    with that have "i \<le> k" by simp
    with IH(2)[OF this] False show ?thesis unfolding unf by simp
  qed
  moreover have "length (foldl step ps0 [0..<Suc k]) = Suc n" unfolding unf using IH(1) by simp
  ultimately show ?case by blast
qed

lemma stretch_pass_on_ray:
  fixes lens :: "real list"
  assumes "length ps0 = Suc (length lens)" "\<forall>l\<in>set lens. 0 \<le> l"
    "sum_list lens < math_dist (ps0 ! 0) t"
  shows "length (stretch_pass lens t ps0) = Suc (length lens)"
    and "i \<le> length lens \<Longrightarrow>
         stretch_pass lens t ps0 ! i = on_ray (ps0 ! 0) t (sum_list (take i lens))"
  using stretch_steps[OF assms(1) refl assms(2,3), of "length lens"] assms(1)
  by (simp_all add: stretch_pass_def)


lemma length_foldl_update:
  "length (foldl (\<lambda>ps i. ps[f i := g ps i]) ps xs) = length ps"
  by (induction xs arbitrary: ps) auto

lemma length_forward_reaching: "length (forward_reaching lens ps) = length ps"
  unfolding forward_reaching_def by (rule length_foldl_update)

lemma length_backward_reaching: "length (backward_reaching lens ps) = length ps"
  unfolding backward_reaching_def by (rule length_foldl_update)

lemma length_stretch_pass: "length (stretch_pass lens t ps) = length ps"
  unfolding stretch_pass_def by (rule length_foldl_update)

lemma get_chain_loop_inv:
  assumes "\<forall>b\<in>set chain. get_bone sk (bone_id b) = Some b"
    "map bone_id chain = rev visited" "distinct visited"
  shows "(\<forall>b\<in>set (get_chain_loop sk bid visited chain). get_bone sk (bone_id b) = Some b) \<and>
         distinct (map bone_id (get_chain_loop sk bid visited chain)) \<and>
         take (length chain) (get_chain_loop sk bid visited chain) = chain"
  using assms
proof (induction sk bid visited chain rule: get_chain_loop.induct)
  case (1 sk bid visited chain)
  have "distinct (rev visited)" using 1(4) by simp
  then have base: "(\<forall>b\<in>set chain. get_bone sk (bone_id b) = Some b) \<and>
         distinct (map bone_id chain) \<and> take (length chain) chain = chain"
    using 1(2) by (simp add: 1(3))
  show ?case
  proof (cases "\<exists>i bone. bid = Some i \<and> i \<notin> set visited \<and> get_bone sk i = Some bone")
    case False
    have "get_chain_loop sk bid visited chain = chain"
      using False by (subst get_chain_loop.simps) (auto split: option.splits)
    with base show ?thesis by simp
  next
    case True
    then obtain i bone where h: "bid = Some i" "i \<notin> set visited" "get_bone sk i = Some bone"
      by blast
    from get_bone_SomeD[OF h(3)] have id: "bone_id bone = i" by simp
    let ?r = "get_chain_loop sk (parent_id bone) (i # visited) (chain @ [bone])"
    have eq: "get_chain_loop sk bid visited chain = ?r"
      using h by (subst get_chain_loop.simps) simp
    have r: "(\<forall>b\<in>set ?r. get_bone sk (bone_id b) = Some b) \<and>
           distinct (map bone_id ?r) \<and> take (length (chain @ [bone])) ?r = chain @ [bone]"
    proof (rule 1(1)[OF h])
      show "\<forall>b\<in>set (chain @ [bone]). get_bone sk (bone_id b) = Some b"
        using 1(2) h(3) id by auto
      show "map bone_id (chain @ [bone]) = rev (i # visited)" using 1(3) id by simp
      show "distinct (i # visited)" using 1(4) h(2) by simp
    qed
    then have "take (length chain) (take (Suc (length chain)) ?r) = take (length chain) (chain @ [bone])"
      by simp
    then have "take (length chain) ?r = chain" by (simp add: min_def)
    with r show ?thesis unfolding eq by simp
  qed
qed


lemma get_chain_props:
  "(\<forall>b\<in>set (get_chain sk e). get_bone sk (bone_id b) = Some b) \<and>
   distinct (map bone_id (get_chain sk e)) \<and>
   (get_chain sk e \<noteq> [] \<longrightarrow> bone_id (last (get_chain sk e)) = e)"
proof -
  let ?r = "get_chain_loop sk (Some e) [] []"
  from get_chain_loop_inv[of "[]" sk "[]" "Some e"]
  have inv: "\<forall>b\<in>set ?r. get_bone sk (bone_id b) = Some b" "distinct (map bone_id ?r)"
    by simp_all
  have "bone_id (hd ?r) = e" if ne: "?r \<noteq> []"
  proof (cases "get_bone sk e")
    case None
    then have "?r = []" by (subst get_chain_loop.simps) simp
    with ne show ?thesis by simp
  next
    case (Some bone)
    then have eq: "?r = get_chain_loop sk (parent_id bone) [e] [bone]"
      by (subst get_chain_loop.simps) simp
    from get_bone_SomeD[OF Some] have id: "bone_id bone = e" by simp
    from get_chain_loop_inv[of "[bone]" sk "[e]" "parent_id bone"] Some id
    have "take 1 (get_chain_loop sk (parent_id bone) [e] [bone]) = [bone]" by simp
    then have "hd (get_chain_loop sk (parent_id bone) [e] [bone]) = bone"
      by (cases "get_chain_loop sk (parent_id bone) [e] [bone]") simp_all
    with eq id show ?thesis by simp
  qed
  moreover have "distinct (map bone_id (rev ?r))"
    using inv(2) by (metis distinct_rev rev_map)
  ultimately show ?thesis using inv(1)
    by (simp add: get_chain_def last_rev)
qed

lemma sqrt_one_plus_ratio:
  fixes x y :: real
  assumes "x \<noteq> 0"
  shows "sqrt (1 + (y / x)\<^sup>2) = sqrt (x\<^sup>2 + y\<^sup>2) / \<bar>x\<bar>"
proof -
  have "1 + (y / x)\<^sup>2 = (x\<^sup>2 + y\<^sup>2) / x\<^sup>2"
    using assms by (simp add: field_simps power_divide)
  then show ?thesis by (simp add: real_sqrt_divide)
qed

lemma atan2_polar:
  fixes x y :: real
  assumes "x \<noteq> 0 \<or> y \<noteq> 0"
  shows "sqrt (x\<^sup>2 + y\<^sup>2) * cos (atan2 y x) = x" "sqrt (x\<^sup>2 + y\<^sup>2) * sin (atan2 y x) = y"
proof -
  let ?r = "sqrt (x\<^sup>2 + y\<^sup>2)"
  have r: "0 < ?r" using assms by (simp add: sum_power2_gt_zero_iff)
  have c: "?r * cos (arctan (y / x)) = \<bar>x\<bar>" and s: "?r * sin (arctan (y / x)) = y * \<bar>x\<bar> / x"
    if "x \<noteq> 0"
  proof -
    have "cos (arctan (y / x)) = \<bar>x\<bar> / ?r"
      unfolding cos_arctan sqrt_one_plus_ratio[OF that] by simp
    then show "?r * cos (arctan (y / x)) = \<bar>x\<bar>" using r by simp
    have "sin (arctan (y / x)) = (y * \<bar>x\<bar> / x) / ?r"
      unfolding sin_arctan sqrt_one_plus_ratio[OF that] by simp
    then show "?r * sin (arctan (y / x)) = y * \<bar>x\<bar> / x" using r by simp
  qed
  consider "0 < x" | "x < 0" "0 \<le> y" | "x < 0" "y < 0" | "x = 0" "0 < y" | "x = 0" "y < 0"
    using assms by linarith
  then have "?r * cos (atan2 y x) = x \<and> ?r * sin (atan2 y x) = y"
  proof cases
    case 1
    with c s show ?thesis by (simp add: atan2_def)
  next
    case 2
    with c s show ?thesis by (simp add: atan2_def)
  next
    case 3
    with c s show ?thesis by (simp add: atan2_def cos_diff sin_diff)
  next
    case 4
    then show ?thesis by (simp add: atan2_def)
  next
    case 5
    then show ?thesis by (simp add: atan2_def)
  qed
  then show "?r * cos (atan2 y x) = x" "?r * sin (atan2 y x) = y" by simp_all
qed

lemma apply_positions_frame:
  "j \<notin> bone_id ` set chain \<Longrightarrow> get_bone (apply_positions chain ps sk) j = get_bone sk j"
proof (induction chain ps sk rule: apply_positions.induct)
  case (1 bone chain p q ps sk)
  then show ?case by (simp add: Let_def get_bone_upd)
qed simp_all

lemma apply_positions_nth:
  "distinct (map bone_id chain) \<Longrightarrow> length ps = Suc (length chain) \<Longrightarrow> i < length chain \<Longrightarrow>
   get_bone sk (bone_id (chain ! i)) = Some b0 \<Longrightarrow>
   \<exists>b. get_bone (apply_positions chain ps sk) (bone_id (chain ! i)) = Some b \<and>
       bone_length b = bone_length b0 \<and> world_x b = fst (ps ! i) \<and> world_y b = snd (ps ! i) \<and>
       world_angle b = atan2 (snd (ps ! Suc i) - snd (ps ! i)) (fst (ps ! Suc i) - fst (ps ! i))"
proof (induction chain ps sk arbitrary: i rule: apply_positions.induct)
  case (1 bone chain p q ps sk)
  let ?wa = "atan2 (snd q - snd p) (fst q - fst p)"
  let ?pwa = "case parent_id bone of None \<Rightarrow> 0
     | Some pid \<Rightarrow> (case get_bone sk pid of None \<Rightarrow> 0 | Some parent \<Rightarrow> world_angle parent)"
  let ?f = "\<lambda>b. b\<lparr>current_angle := ?wa - ?pwa - rest_angle b, world_x := fst p, world_y := snd p,
                 world_angle := ?wa\<rparr>"
  let ?sk1 = "upd_bone sk (bone_id bone) ?f"
  have unf: "apply_positions (bone # chain) (p # q # ps) sk = apply_positions chain (q # ps) ?sk1"
    by (simp add: Let_def)
  have g: "get_bone ?sk1 j = (if j = bone_id bone then map_option ?f (get_bone sk j) else get_bone sk j)"
    for j by (rule get_bone_upd) simp
  show ?case
  proof (cases i)
    case 0
    have "bone_id bone \<notin> bone_id ` set chain" using 1(2) by simp
    from apply_positions_frame[OF this] have
      "get_bone (apply_positions chain (q # ps) ?sk1) (bone_id bone) = get_bone ?sk1 (bone_id bone)" .
    with 0 1(5) show ?thesis unfolding unf by (simp add: g)
  next
    case (Suc i')
    with 1(4) have i': "i' < length chain" by simp
    have "bone_id (chain ! i') \<in> bone_id ` set chain" using nth_mem[OF i'] by (rule imageI)
    with 1(2) have ne: "bone_id (chain ! i') \<noteq> bone_id bone" by auto
    have "\<exists>b. get_bone (apply_positions chain (q # ps) ?sk1) (bone_id (chain ! i')) = Some b \<and>
       bone_length b = bone_length b0 \<and> world_x b = fst ((q # ps) ! i') \<and> world_y b = snd ((q # ps) ! i') \<and>
       world_angle b = atan2 (snd ((q # ps) ! Suc i') - snd ((q # ps) ! i'))
                             (fst ((q # ps) ! Suc i') - fst ((q # ps) ! i'))"
    proof (rule 1(1)[OF refl refl _ _ i'])
      show "distinct (map bone_id chain)" using 1(2) by simp
      show "length (q # ps) = Suc (length chain)" using 1(3) by simp
      show "get_bone ?sk1 (bone_id (chain ! i')) = Some b0" using 1(5) Suc ne by (simp add: g)
    qed
    with Suc show ?thesis unfolding unf by simp
  qed
qed simp_all

subsection \<open>The positions and the bones of the chain\<close>

lemma start_positions_facts:
  "length (start_positions chain) = Suc (length chain)"
  "chain \<noteq> [] \<Longrightarrow> start_positions chain ! 0 = root_pos chain"
  by (cases chain; simp add: start_positions_def root_pos_def)+

lemma ik_positions_far:
  "chain \<noteq> [] \<Longrightarrow> total_length chain < math_dist (root_pos chain) t \<Longrightarrow>
   ik_positions chain t it tol = stretch_pass (map bone_length chain) t (start_positions chain)"
  using start_positions_facts(2)[of chain]
  by (simp add: ik_positions_def Let_def total_length_def start_positions_def)

lemma length_ik_positions: "chain \<noteq> [] \<Longrightarrow> length (ik_positions chain t it tol) = Suc (length chain)"
proof -
  have "length (fabrik_iterate k lens rp t tol ps) = length ps" for k lens rp ps
    by (induction k arbitrary: ps)
      (simp_all add: Let_def length_backward_reaching length_forward_reaching)
  then show ?thesis
    by (simp add: ik_positions_def Let_def length_stretch_pass)
qed

lemma tip_reaches:
  assumes "math_dist p q = l"
  shows "fst p + l * cos (atan2 (snd q - snd p) (fst q - fst p)) = fst q"
    and "snd p + l * sin (atan2 (snd q - snd p) (fst q - fst p)) = snd q"
proof -
  have l: "l = sqrt ((fst q - fst p)\<^sup>2 + (snd q - snd p)\<^sup>2)"
    using assms by (simp add: math_dist_def power2_commute)
  show "fst p + l * cos (atan2 (snd q - snd p) (fst q - fst p)) = fst q"
  proof (cases "fst q - fst p \<noteq> 0 \<or> snd q - snd p \<noteq> 0")
    case True
    from atan2_polar(1)[OF this] l show ?thesis by simp
  next
    case False
    with l show ?thesis by simp
  qed
  show "snd p + l * sin (atan2 (snd q - snd p) (fst q - fst p)) = snd q"
  proof (cases "fst q - fst p \<noteq> 0 \<or> snd q - snd p \<noteq> 0")
    case True
    from atan2_polar(2)[OF this] l show ?thesis by simp
  next
    case False
    with l show ?thesis by simp
  qed
qed

lemma ik_result:
  "2 \<le> length (get_chain sk e) \<Longrightarrow>
   snd (calculate_inverse_kinematics sk e tx ty it tol)
     = apply_positions (get_chain sk e) (ik_positions (get_chain sk e) (tx, ty) it tol) sk"
  by (simp add: calculate_inverse_kinematics_def Let_def)

lemma ik_joint:
  assumes "2 \<le> length (get_chain sk e)" "i < length (get_chain sk e)"
  shows "\<exists>b. get_bone (snd (calculate_inverse_kinematics sk e tx ty it tol))
              (bone_id (get_chain sk e ! i)) = Some b \<and>
       bone_length b = bone_length (get_chain sk e ! i) \<and>
       world_x b = fst (ik_positions (get_chain sk e) (tx, ty) it tol ! i) \<and>
       world_y b = snd (ik_positions (get_chain sk e) (tx, ty) it tol ! i) \<and>
       world_angle b = atan2 (snd (ik_positions (get_chain sk e) (tx, ty) it tol ! Suc i)
                               - snd (ik_positions (get_chain sk e) (tx, ty) it tol ! i))
                             (fst (ik_positions (get_chain sk e) (tx, ty) it tol ! Suc i)
                               - fst (ik_positions (get_chain sk e) (tx, ty) it tol ! i))"
proof -
  let ?chain = "get_chain sk e"
  from assms(1) have ne: "?chain \<noteq> []" by auto
  from get_chain_props[of sk e] assms(2) have
    d: "distinct (map bone_id ?chain)" and g: "get_bone sk (bone_id (?chain ! i)) = Some (?chain ! i)"
    by simp_all
  from apply_positions_nth[OF d length_ik_positions[OF ne] assms(2) g]
  show ?thesis unfolding ik_result[OF assms(1)] .
qed


lemma stretch_positions:
  assumes ne: "chain \<noteq> []" and nn: "\<forall>b\<in>set chain. 0 \<le> bone_length b"
    and far: "total_length chain < math_dist (root_pos chain) t"
    and i: "i \<le> length chain"
  shows "ik_positions chain t it tol ! i
           = on_ray (root_pos chain) t (sum_list (take i (map bone_length chain)))"
proof -
  have 1: "length (start_positions chain) = Suc (length (map bone_length chain))"
    by (simp add: start_positions_facts)
  have 2: "\<forall>l\<in>set (map bone_length chain). 0 \<le> l" using nn by simp
  have 3: "sum_list (map bone_length chain) < math_dist (start_positions chain ! 0) t"
    using far by (simp add: start_positions_facts(2)[OF ne] total_length_def)
  from stretch_pass_on_ray(2)[OF 1 2 3, of i] i show ?thesis
    by (simp add: ik_positions_far[OF ne far] start_positions_facts(2)[OF ne])
qed

lemma fk_demo_posed: "calculate_forward_kinematics demo_skeleton = Some demo_posed"
  by (simp add: calculate_forward_kinematics_def demo_skeleton_bones demo_posed_bones
      demo_bone_def root_bones_def get_bone_def upd_bone_def get_children_def tip_x_def tip_y_def)

lemma chain_demo_posed:
  "get_chain demo_posed 1 = [demo_bone 0 None 1, (demo_bone 1 (Some 0) 1)\<lparr>world_x := 1\<rparr>]"
  by (simp add: get_chain_def get_chain_loop.simps demo_posed_bones get_bone_def
      demo_bone_def)

lemma dist_3_4: "math_dist (0, 0) (3, 4) = 5"
proof -
  have "sqrt 25 = (5 :: real)" using real_sqrt_abs[of 5] by simp
  then show ?thesis by (simp add: math_dist_def)
qed

subsection \<open>A chain with a bone of negative length\<close>

lemma neg_skeleton_bones:
  "neg_skeleton = \<lparr>bones = [demo_bone 0 None 4, demo_bone 1 (Some 0) (- 6), demo_bone 2 (Some 1) 3],
                    root_x = 0, root_y = 0\<rparr>"
  unfolding neg_skeleton_def by (rule Skeleton_init_distinct) (simp add: demo_bone_def)

lemma chain_neg_skeleton:
  "get_chain neg_skeleton 2 = [demo_bone 0 None 4, demo_bone 1 (Some 0) (- 6), demo_bone 2 (Some 1) 3]"
  by (simp add: get_chain_def get_chain_loop.simps neg_skeleton_bones get_bone_def demo_bone_def)

lemma neg_chain_facts:
  "2 \<le> length (get_chain neg_skeleton 2)"
  "map bone_length (get_chain neg_skeleton 2) = [4, - 6, 3]"
  "root_pos (get_chain neg_skeleton 2) = (0, 0)"
  "total_length (get_chain neg_skeleton 2) = 1"
  "math_dist (root_pos (get_chain neg_skeleton 2)) (- 2, 0) = 2"
proof -
  have s4: "sqrt 4 = (2 :: real)" using real_sqrt_abs[of 2] by simp
  show "2 \<le> length (get_chain neg_skeleton 2)"
    "map bone_length (get_chain neg_skeleton 2) = [4, - 6, 3]"
    "root_pos (get_chain neg_skeleton 2) = (0, 0)"
    "total_length (get_chain neg_skeleton 2) = 1"
    "math_dist (root_pos (get_chain neg_skeleton 2)) (- 2, 0) = 2"
    by (simp_all add: chain_neg_skeleton demo_bone_def root_pos_def total_length_def math_dist_def s4)
qed

lemma ik_neg_positions:
  "ik_positions (get_chain neg_skeleton 2) (- 2, 0) 20 (1 / 100)
     = [(0, 0), (- 4, 0), (- 10, 0), (- 7, 0)]"
proof -
  have s4: "sqrt 4 = (2 :: real)" using real_sqrt_abs[of 2] by simp
  have s64: "sqrt 64 = (8 :: real)" using real_sqrt_abs[of 8] by simp
  have u: "[0..<3] = [0, Suc 0, Suc (Suc 0)]" by (simp add: upt_rec)
  show ?thesis
    unfolding chain_neg_skeleton ik_positions_def
    by (simp add: Let_def demo_bone_def tip_x_def tip_y_def math_dist_def stretch_pass_def
        place_def u s4 s64)
qed

lemma ik_neg_end_bone:
  "\<exists>b. get_bone (snd (calculate_inverse_kinematics neg_skeleton 2 (- 2) 0 20 (1 / 100))) 2 = Some b \<and>
       bone_length b = 3 \<and> world_x b = - 10 \<and> world_y b = 0 \<and> world_angle b = 0"
  using ik_joint[OF neg_chain_facts(1), of 2 "- 2" 0 20 "1 / 100"]
  by (simp add: ik_neg_positions atan2_def) (simp add: chain_neg_skeleton demo_bone_def)

text \<open>
  Claim C1, as stated, for every chain of at least 2 bones. It fails at a chain with a
  bone of negative length: three bones of lengths 4, -6 and 3 from the origin, total
  length 1, and the target \<open>(-2, 0)\<close> at distance 2. The stretch pass overshoots the
  target with the first bone, the second bone then moves away from the target, and the
  positions are \<open>(0, 0)\<close>, \<open>(-4, 0)\<close>, \<open>(-10, 0)\<close>, \<open>(-7, 0)\<close>. The last position, which is
  also the tip of the end bone after the solver, is at distance 7 from the root position,
  not 1.
\<close>

theorem ik_negative_length_counterexample:
  "2 \<le> length (get_chain neg_skeleton 2) \<and>
   map bone_length (get_chain neg_skeleton 2) = [4, - 6, 3] \<and>
   root_pos (get_chain neg_skeleton 2) = (0, 0) \<and>
   total_length (get_chain neg_skeleton 2) = 1 \<and>
   math_dist (root_pos (get_chain neg_skeleton 2)) (- 2, 0) = 2 \<and>
   total_length (get_chain neg_skeleton 2) < math_dist (root_pos (get_chain neg_skeleton 2)) (- 2, 0) \<and>
   last (ik_positions (get_chain neg_skeleton 2) (- 2, 0) 20 (1 / 100)) = (- 7, 0) \<and>
   map_option tip_x (get_bone (snd (calculate_inverse_kinematics neg_skeleton 2 (- 2) 0 20 (1 / 100))) 2)
     = Some (- 7) \<and>
   map_option tip_y (get_bone (snd (calculate_inverse_kinematics neg_skeleton 2 (- 2) 0 20 (1 / 100))) 2)
     = Some 0 \<and>
   math_dist (root_pos (get_chain neg_skeleton 2)) (- 7, 0) = 7 \<and>
   math_dist (root_pos (get_chain neg_skeleton 2)) (- 7, 0) \<noteq> total_length (get_chain neg_skeleton 2)"
proof -
  have s49: "sqrt 49 = (7 :: real)" using real_sqrt_abs[of 7] by simp
  have d: "math_dist (0, 0) (- 7, 0) = 7" by (simp add: math_dist_def s49)
  from ik_neg_end_bone obtain b where
    b: "get_bone (snd (calculate_inverse_kinematics neg_skeleton 2 (- 2) 0 20 (1 / 100))) 2 = Some b"
      "bone_length b = 3" "world_x b = - 10" "world_y b = 0" "world_angle b = 0"
    by blast
  then have "tip_x b = - 7" "tip_y b = 0" by (simp_all add: tip_x_def tip_y_def)
  with b(1) neg_chain_facts d show ?thesis
    by (simp add: ik_neg_positions)
qed

text \<open>
  Claim C1, amended: the bones of the chain have nonnegative lengths (the data model of
  the bone). For a chain of at least 2 such bones, when the target is farther from the
  chain's root position than the total length: after the solver, the tip of the end bone
  is the last solved position, it is the point of the ray from the root position through
  the target at distance the total length, and its distance from the root position is the
  total length.
\<close>

theorem ik_unreachable_tip_on_ray:
  assumes len: "2 \<le> length (get_chain sk e)"
    and nn: "\<forall>b\<in>set (get_chain sk e). 0 \<le> bone_length b"
    and far: "total_length (get_chain sk e) < math_dist (root_pos (get_chain sk e)) (tx, ty)"
  shows "\<exists>b. get_bone (snd (calculate_inverse_kinematics sk e tx ty it tol)) e = Some b \<and>
      (tip_x b, tip_y b) = last (ik_positions (get_chain sk e) (tx, ty) it tol) \<and>
      (tip_x b, tip_y b)
         = on_ray (root_pos (get_chain sk e)) (tx, ty) (total_length (get_chain sk e)) \<and>
      0 \<le> total_length (get_chain sk e) \<and>
      math_dist (root_pos (get_chain sk e)) (tip_x b, tip_y b) = total_length (get_chain sk e)"
proof -
  let ?chain = "get_chain sk e"
  let ?ps = "ik_positions ?chain (tx, ty) it tol"
  let ?lens = "map bone_length ?chain"
  let ?n = "length ?chain"
  from len have ne: "?chain \<noteq> []" by auto
  from len obtain m where m: "?n = Suc m" by (cases ?n) auto
  have lps: "length ?ps = Suc ?n" by (rule length_ik_positions[OF ne])
  have tot: "0 \<le> total_length ?chain"
    using nn by (auto simp: total_length_def intro!: sum_list_nonneg)
  with far have D: "0 < math_dist (root_pos ?chain) (tx, ty)" by simp
  have pn: "?ps ! ?n = on_ray (root_pos ?chain) (tx, ty) (total_length ?chain)"
    using stretch_positions[OF ne nn far, of ?n it tol] by (simp add: total_length_def)
  have pm: "?ps ! m = on_ray (root_pos ?chain) (tx, ty) (sum_list (take m ?lens))"
    using stretch_positions[OF ne nn far, of m it tol] m by simp
  have lastb: "?chain ! m = last ?chain" using m ne by (simp add: last_conv_nth)
  have "take (Suc m) ?lens = take m ?lens @ [?lens ! m]"
    using m by (intro take_Suc_conv_app_nth) simp
  moreover have "take (Suc m) ?lens = ?lens" using m by simp
  ultimately have "sum_list ?lens = sum_list (take m ?lens) + ?lens ! m"
    by (metis sum_list.append sum_list.Cons sum_list.Nil add.right_neutral)
  then have split: "total_length ?chain = sum_list (take m ?lens) + bone_length (last ?chain)"
    using m lastb by (simp add: total_length_def)
  have seg: "math_dist (?ps ! m) (?ps ! Suc m) = bone_length (last ?chain)"
    unfolding pm m[symmetric] pn split
    by (rule dist_on_ray_on_ray[OF D]) (use nn ne in simp)
  from ik_joint[OF len, of m tx ty it tol] m lastb get_chain_props[of sk e] ne
  obtain b where b: "get_bone (snd (calculate_inverse_kinematics sk e tx ty it tol)) e = Some b"
    "bone_length b = bone_length (last ?chain)"
    "world_x b = fst (?ps ! m)" "world_y b = snd (?ps ! m)"
    "world_angle b = atan2 (snd (?ps ! Suc m) - snd (?ps ! m)) (fst (?ps ! Suc m) - fst (?ps ! m))"
    by auto
  from tip_reaches[OF seg] b have tip: "(tip_x b, tip_y b) = ?ps ! Suc m"
    by (simp add: tip_x_def tip_y_def prod_eq_iff)
  have "?ps \<noteq> []" using lps by auto
  then have lastp: "last ?ps = ?ps ! Suc m" by (simp add: last_conv_nth lps m)
  from tip lastp pn m dist_on_ray_root[OF D tot] tot b(1) show ?thesis by simp
qed

theorem ik_unreachable_tip_on_ray_witness:
  "2 \<le> length (get_chain demo_posed 1) \<and>
   map bone_length (get_chain demo_posed 1) = [1, 1] \<and>
   total_length (get_chain demo_posed 1) = 2 \<and>
   math_dist (root_pos (get_chain demo_posed 1)) (3, 4) = 5 \<and>
   (\<exists>b. get_bone (snd (calculate_inverse_kinematics demo_posed 1 3 4 20 (1 / 100))) 1 = Some b \<and>
        (tip_x b, tip_y b) = (6 / 5, 8 / 5) \<and>
        math_dist (root_pos (get_chain demo_posed 1)) (tip_x b, tip_y b) = 2)"
proof -
  have h: "2 \<le> length (get_chain demo_posed 1)"
    "\<forall>b\<in>set (get_chain demo_posed 1). 0 \<le> bone_length b"
    by (simp_all add: chain_demo_posed demo_bone_def)
  have t: "total_length (get_chain demo_posed 1) = 2"
    by (simp add: chain_demo_posed total_length_def demo_bone_def)
  have r: "root_pos (get_chain demo_posed 1) = (0, 0)"
    by (simp add: chain_demo_posed root_pos_def demo_bone_def)
  have d: "math_dist (root_pos (get_chain demo_posed 1)) (3, 4) = 5"
    by (simp only: r dist_3_4)
  have far: "total_length (get_chain demo_posed 1) < math_dist (root_pos (get_chain demo_posed 1)) (3, 4)"
    by (simp add: t d)
  have ls: "map bone_length (get_chain demo_posed 1) = [1, 1]"
    by (simp add: chain_demo_posed demo_bone_def)
  from ik_unreachable_tip_on_ray[OF h far, of 20 "1 / 100"] h(1) ls t d show ?thesis
    by (auto simp: r on_ray_def dist_3_4)
qed



text \<open>
  In the stretch pass of a chain of nonnegative lengths whose target is out of reach,
  every distance \<open>r\<close> to the target is positive and every ratio \<^verbatim>\<open>lam\<close> lies in \<open>[0, 1)\<close>:
  the guard \<^verbatim>\<open>1e-9\<close> is not reached and each new position is a convex combination of the
  previous one and the target, so no digits are lost to cancellation when the products
  are rounded.
\<close>

lemma stretch_ratio_unit:
  assumes ne: "chain \<noteq> []" and nn: "\<forall>b\<in>set chain. 0 \<le> bone_length b"
    and far: "total_length chain < math_dist (root_pos chain) t"
    and i: "i < length chain"
  shows "0 < math_dist (ik_positions chain t it tol ! i) t"
    and "0 \<le> bone_length (chain ! i) / math_dist (ik_positions chain t it tol ! i) t"
    and "bone_length (chain ! i) / math_dist (ik_positions chain t it tol ! i) t < 1"
proof -
  let ?lens = "map bone_length chain"
  let ?D = "math_dist (root_pos chain) t"
  have nn': "\<forall>l\<in>set ?lens. 0 \<le> l" using nn by simp
  have "take (Suc i) ?lens = take i ?lens @ [?lens ! i]"
    using i by (intro take_Suc_conv_app_nth) simp
  then have s: "sum_list (take (Suc i) ?lens) = sum_list (take i ?lens) + bone_length (chain ! i)"
    using i by simp
  from sum_take_bounds(2)[OF nn', of "Suc i"] far
  have b: "sum_list (take i ?lens) + bone_length (chain ! i) < ?D"
    by (simp add: s total_length_def)
  have li: "0 \<le> bone_length (chain ! i)" using nn nth_mem[OF i] by blast
  have D: "0 < ?D" using sum_take_bounds(1)[OF nn', of i] b li by linarith
  have "math_dist (ik_positions chain t it tol ! i) t = ?D - sum_list (take i ?lens)"
    using stretch_positions[OF ne nn far, of i it tol] i dist_on_ray_target[OF D, of "sum_list (take i ?lens)"] b li
    by simp
  with b li show "0 < math_dist (ik_positions chain t it tol ! i) t"
    and "0 \<le> bone_length (chain ! i) / math_dist (ik_positions chain t it tol ! i) t"
    and "bone_length (chain ! i) / math_dist (ik_positions chain t it tol ! i) t < 1"
    by simp_all
qed


section \<open>The animator\<close>

lemma update_tick: "update a dt = Some a' \<Longrightarrow> \<exists>sk. a' = (tick a dt)\<lparr>skeleton := sk\<rparr>"
  unfolding update_def tick_def
  by (auto simp: Let_def split: if_splits option.splits intro: exI[of _ "skeleton a"] exI[of _ "skeleton (advance a dt)"])

lemma apply_pose_wf: "wf_skeleton (apply_pose sk pose) = wf_skeleton sk"
proof -
  have "map bone_id (bones (apply_pose sk pose)) = map bone_id (bones sk)"
    by (auto simp: apply_pose_def split: option.splits)
  then show ?thesis by (simp add: wf_skeleton_def)
qed

lemma skeleton_advance: "skeleton (advance a dt) = skeleton a"
  by (simp add: advance_def blend_step_def Let_def)

lemma update_returns:
  assumes "wf_skeleton (skeleton a)"
  shows "\<exists>sk. update a dt = Some ((tick a dt)\<lparr>skeleton := sk\<rparr>) \<and> wf_skeleton sk"
proof (cases "state a = STOPPED \<or> state a = PAUSED")
  case True
  then have "update a dt = Some ((tick a dt)\<lparr>skeleton := skeleton a\<rparr>)"
    by (simp add: update_def tick_def)
  with assms show ?thesis by blast
next
  case False
  show ?thesis
  proof (cases "current_pose (advance a dt)")
    case None
    with False have "update a dt = Some ((tick a dt)\<lparr>skeleton := skeleton (advance a dt)\<rparr>)"
      by (simp add: update_def tick_def Let_def)
    moreover have "wf_skeleton (skeleton (advance a dt))"
      using assms by (simp add: skeleton_advance)
    ultimately show ?thesis by blast
  next
    case (Some pose)
    have "wf_skeleton (apply_pose (skeleton (advance a dt)) pose)"
      using assms by (simp add: apply_pose_wf skeleton_advance)
    from fk_returns_aux[OF this] obtain sk where
      sk: "calculate_forward_kinematics (apply_pose (skeleton (advance a dt)) pose) = Some sk"
      "same_static (apply_pose (skeleton (advance a dt)) pose) sk" by blast
    from sk(2) have "wf_skeleton sk"
      using assms by (simp add: wf_static apply_pose_wf skeleton_advance)
    moreover from False Some sk(1) have "update a dt = Some ((tick a dt)\<lparr>skeleton := sk\<rparr>)"
      by (simp add: update_def tick_def Let_def)
    ultimately show ?thesis by blast
  qed
qed

lemma fadd_nonneg: "0 \<le> x \<Longrightarrow> 0 \<le> y \<Longrightarrow> 0 \<le> fadd x y"
  by (simp add: fadd_def fl_nonneg)

lemma fdiv_nonneg: "0 \<le> x \<Longrightarrow> 0 < y \<Longrightarrow> 0 \<le> fdiv x y"
  by (simp add: fdiv_def fl_nonneg)

lemma fdiv_ge_1: "0 < d \<Longrightarrow> d \<le> x \<Longrightarrow> 1 \<le> fdiv x d"
  by (simp add: fdiv_def fl_ge_1)

lemma reachable_inv: "reachable a \<Longrightarrow> 0 \<le> blend_alpha a \<and> blend_alpha a \<le> 1 \<and> 0 \<le> blend_time a"
proof (induction rule: reachable.induct)
  case (update a dt a')
  from update_tick[OF update(3)] obtain sk where a': "a' = (tick a dt)\<lparr>skeleton := sk\<rparr>" by blast
  from update(2,4) have "0 \<le> fadd (blend_time a) dt" by (simp add: fadd_nonneg)
  then have "0 < blend_duration a \<Longrightarrow> 0 \<le> fdiv (fadd (blend_time a) dt) (blend_duration a)"
    by (simp add: fdiv_nonneg)
  with update(2,4) \<open>0 \<le> fadd (blend_time a) dt\<close> show ?case
    by (auto simp: a' tick_def advance_def blend_step_def Let_def min_def)
qed (auto simp: Animator_init_def add_clip_def play_def stop_def pause_def resume_def blend_def
      transition_to_def Let_def)

text \<open>
  Claim C10. Whatever the calls of \<^verbatim>\<open>play\<close>, \<^verbatim>\<open>stop\<close>, \<^verbatim>\<open>pause\<close>, \<^verbatim>\<open>resume\<close>,
  \<^verbatim>\<open>blend\<close>, \<^verbatim>\<open>transition_to\<close>, \<^verbatim>\<open>add_clip\<close> and \<^verbatim>\<open>update\<close> with \<open>dt \<ge> 0\<close> made on
  a new animator, \<^verbatim>\<open>blend_alpha\<close> lies in the closed interval from 0 to 1.
\<close>

theorem blend_alpha_in_unit_interval:
  "reachable a \<Longrightarrow> 0 \<le> blend_alpha a \<and> blend_alpha a \<le> 1"
  using reachable_inv by blast

theorem blend_alpha_in_unit_interval_witness:
  "reachable (snd (blend demo_animator ''a'' ''b'' 7)) \<and>
   blend_alpha (snd (blend demo_animator ''a'' ''b'' 7)) = 1 \<and>
   0 \<le> blend_alpha (snd (blend demo_animator ''a'' ''b'' 7)) \<and>
   blend_alpha (snd (blend demo_animator ''a'' ''b'' 7)) \<le> 1"
proof -
  have r: "reachable (snd (blend demo_animator ''a'' ''b'' 7))"
    unfolding demo_animator_def by (intro reachable.blend reachable.init)
  have "blend_alpha (snd (blend demo_animator ''a'' ''b'' 7)) = 1"
    by (simp add: blend_def demo_animator_def Animator_init_def)
  with r blend_alpha_in_unit_interval[OF r] show ?thesis by simp
qed

lemma updates_done:
  "wf_skeleton (skeleton a) \<Longrightarrow> transition_done n a \<Longrightarrow>
   \<exists>a'. updates a dts = Some a' \<and> transition_done n a'"
proof (induction dts arbitrary: a)
  case Nil
  then show ?case by simp
next
  case (Cons dt dts)
  from update_returns[OF Cons.prems(1), of dt] obtain sk where
    u: "update a dt = Some ((tick a dt)\<lparr>skeleton := sk\<rparr>)" and wf: "wf_skeleton sk" by blast
  have "transition_done n ((tick a dt)\<lparr>skeleton := sk\<rparr>)"
    using Cons.prems(2) by (simp add: transition_done_def tick_def advance_def Let_def)
  with Cons.IH[of "(tick a dt)\<lparr>skeleton := sk\<rparr>"] wf u show ?case by simp
qed

lemma updates_blending:
  "wf_skeleton (skeleton a) \<Longrightarrow> state a = BLENDING \<Longrightarrow> blend_clip a = Some n \<Longrightarrow>
   0 < blend_duration a \<Longrightarrow> blend_time a < blend_duration a \<Longrightarrow>
   blend_duration a \<le> foldl fadd (blend_time a) dts \<Longrightarrow>
   \<exists>a'. updates a dts = Some a' \<and> transition_done n a'"
proof (induction dts arbitrary: a)
  case Nil
  then show ?case by simp
next
  case (Cons dt dts)
  from update_returns[OF Cons.prems(1), of dt] obtain sk where
    u: "update a dt = Some ((tick a dt)\<lparr>skeleton := sk\<rparr>)" and wf: "wf_skeleton sk" by blast
  let ?a1 = "(tick a dt)\<lparr>skeleton := sk\<rparr>"
  show ?case
  proof (cases "1 \<le> fdiv (fadd (blend_time a) dt) (blend_duration a)")
    case True
    with Cons.prems have "transition_done n ?a1"
      by (simp add: transition_done_def tick_def advance_def blend_step_def Let_def min_def)
    from updates_done[OF _ this, of dts] wf u show ?thesis by simp
  next
    case False
    with fdiv_ge_1[OF Cons.prems(4), of "fadd (blend_time a) dt"]
    have lt: "fadd (blend_time a) dt < blend_duration a" by (cases "blend_duration a \<le> fadd (blend_time a) dt") auto
    with False Cons.prems have
      "state ?a1 = BLENDING" "blend_clip ?a1 = Some n" "0 < blend_duration ?a1"
      "blend_time ?a1 < blend_duration ?a1" "blend_duration ?a1 \<le> foldl fadd (blend_time ?a1) dts"
      by (simp_all add: tick_def advance_def blend_step_def Let_def min_def)
    from Cons.IH[OF _ this] wf u show ?thesis by simp
  qed
qed

lemma updates_stalled:
  "wf_skeleton (skeleton a) \<Longrightarrow> state a = BLENDING \<Longrightarrow> 0 < blend_duration a \<Longrightarrow>
   list_all (\<lambda>s. fdiv s (blend_duration a) < 1) (timer_values (blend_time a) dts) \<Longrightarrow>
   \<exists>a'. updates a dts = Some a' \<and> state a' = BLENDING \<and> current_clip a' = current_clip a \<and>
        blend_clip a' = blend_clip a \<and> blend_time a' = foldl fadd (blend_time a) dts"
proof (induction dts arbitrary: a)
  case Nil
  then show ?case by simp
next
  case (Cons dt dts)
  from update_returns[OF Cons.prems(1), of dt] obtain sk where
    u: "update a dt = Some ((tick a dt)\<lparr>skeleton := sk\<rparr>)" and wf: "wf_skeleton sk" by blast
  let ?a1 = "(tick a dt)\<lparr>skeleton := sk\<rparr>"
  from Cons.prems have
    f: "state ?a1 = BLENDING" "0 < blend_duration ?a1"
      "list_all (\<lambda>s. fdiv s (blend_duration ?a1) < 1) (timer_values (blend_time ?a1) dts)"
    and g: "current_clip ?a1 = current_clip a" "blend_clip ?a1 = blend_clip a"
      "blend_time ?a1 = fadd (blend_time a) dt"
    by (simp_all add: tick_def advance_def blend_step_def Let_def min_def)
  from Cons.IH[OF _ f] wf obtain a' where
    "updates ?a1 dts = Some a'" "state a' = BLENDING" "current_clip a' = current_clip ?a1"
    "blend_clip a' = blend_clip ?a1" "blend_time a' = foldl fadd (blend_time ?a1) dts"
    by auto
  with u g show ?case by simp
qed

subsection \<open>Ten steps of a tenth\<close>

lemma tenth_step_1: "fadd 0 tenth = 3602879701896397 / 36028797018963968"
proof -
  have "fl (0 + 3602879701896397 / 2 ^ 55) = of_int 7205759403792794 / 2 ^ 56"
    by (rule fl_eval_frac) (simp_all add: round_half_even_def Let_def)
  then show ?thesis by (simp add: fadd_def tenth_def)
qed

lemma tenth_sum_1_double: "fl (3602879701896397 / 36028797018963968) = 3602879701896397 / 36028797018963968"
proof -
  have "fl (of_int 3602879701896397 / 2 ^ 55) = of_int 3602879701896397 / 2 ^ 55"
    by (rule fl_exact_frac) simp_all
  then show ?thesis by simp
qed

lemma tenth_step_2: "fadd (3602879701896397 / 36028797018963968) tenth = 3602879701896397 / 18014398509481984"
proof -
  have "fl (3602879701896397 / 36028797018963968 + 3602879701896397 / 2 ^ 55) = of_int 7205759403792794 / 2 ^ 55"
    by (rule fl_eval_frac) (simp_all add: round_half_even_def Let_def)
  then show ?thesis by (simp add: fadd_def tenth_def)
qed

lemma tenth_sum_2_double: "fl (3602879701896397 / 18014398509481984) = 3602879701896397 / 18014398509481984"
proof -
  have "fl (of_int 3602879701896397 / 2 ^ 54) = of_int 3602879701896397 / 2 ^ 54"
    by (rule fl_exact_frac) simp_all
  then show ?thesis by simp
qed

lemma tenth_step_3: "fadd (3602879701896397 / 18014398509481984) tenth = 1351079888211149 / 4503599627370496"
proof -
  have "fl (3602879701896397 / 18014398509481984 + 3602879701896397 / 2 ^ 55) = of_int 5404319552844596 / 2 ^ 54"
    by (rule fl_eval_frac) (simp_all add: round_half_even_def Let_def)
  then show ?thesis by (simp add: fadd_def tenth_def)
qed

lemma tenth_sum_3_double: "fl (1351079888211149 / 4503599627370496) = 1351079888211149 / 4503599627370496"
proof -
  have "fl (of_int 1351079888211149 / 2 ^ 52) = of_int 1351079888211149 / 2 ^ 52"
    by (rule fl_exact_frac) simp_all
  then show ?thesis by simp
qed

lemma tenth_step_4: "fadd (1351079888211149 / 4503599627370496) tenth = 3602879701896397 / 9007199254740992"
proof -
  have "fl (1351079888211149 / 4503599627370496 + 3602879701896397 / 2 ^ 55) = of_int 7205759403792794 / 2 ^ 54"
    by (rule fl_eval_frac) (simp_all add: round_half_even_def Let_def)
  then show ?thesis by (simp add: fadd_def tenth_def)
qed

lemma tenth_sum_4_double: "fl (3602879701896397 / 9007199254740992) = 3602879701896397 / 9007199254740992"
proof -
  have "fl (of_int 3602879701896397 / 2 ^ 53) = of_int 3602879701896397 / 2 ^ 53"
    by (rule fl_exact_frac) simp_all
  then show ?thesis by simp
qed

lemma tenth_step_5: "fadd (3602879701896397 / 9007199254740992) tenth = 1 / 2"
proof -
  have "fl (3602879701896397 / 9007199254740992 + 3602879701896397 / 2 ^ 55) = of_int 4503599627370496 / 2 ^ 53"
    by (rule fl_eval_frac) (simp_all add: round_half_even_def Let_def)
  then show ?thesis by (simp add: fadd_def tenth_def)
qed

lemma tenth_sum_5_double: "fl (1 / 2) = 1 / 2"
proof -
  have "fl (of_int 1 / 2 ^ 1) = of_int 1 / 2 ^ 1"
    by (rule fl_exact_frac) simp_all
  then show ?thesis by simp
qed

lemma tenth_step_6: "fadd (1 / 2) tenth = 5404319552844595 / 9007199254740992"
proof -
  have "fl (1 / 2 + 3602879701896397 / 2 ^ 55) = of_int 5404319552844595 / 2 ^ 53"
    by (rule fl_eval_frac) (simp_all add: round_half_even_def Let_def)
  then show ?thesis by (simp add: fadd_def tenth_def)
qed

lemma tenth_sum_6_double: "fl (5404319552844595 / 9007199254740992) = 5404319552844595 / 9007199254740992"
proof -
  have "fl (of_int 5404319552844595 / 2 ^ 53) = of_int 5404319552844595 / 2 ^ 53"
    by (rule fl_exact_frac) simp_all
  then show ?thesis by simp
qed

lemma tenth_step_7: "fadd (5404319552844595 / 9007199254740992) tenth = 3152519739159347 / 4503599627370496"
proof -
  have "fl (5404319552844595 / 9007199254740992 + 3602879701896397 / 2 ^ 55) = of_int 6305039478318694 / 2 ^ 53"
    by (rule fl_eval_frac) (simp_all add: round_half_even_def Let_def)
  then show ?thesis by (simp add: fadd_def tenth_def)
qed

lemma tenth_sum_7_double: "fl (3152519739159347 / 4503599627370496) = 3152519739159347 / 4503599627370496"
proof -
  have "fl (of_int 3152519739159347 / 2 ^ 52) = of_int 3152519739159347 / 2 ^ 52"
    by (rule fl_exact_frac) simp_all
  then show ?thesis by simp
qed

lemma tenth_step_8: "fadd (3152519739159347 / 4503599627370496) tenth = 7205759403792793 / 9007199254740992"
proof -
  have "fl (3152519739159347 / 4503599627370496 + 3602879701896397 / 2 ^ 55) = of_int 7205759403792793 / 2 ^ 53"
    by (rule fl_eval_frac) (simp_all add: round_half_even_def Let_def)
  then show ?thesis by (simp add: fadd_def tenth_def)
qed

lemma tenth_sum_8_double: "fl (7205759403792793 / 9007199254740992) = 7205759403792793 / 9007199254740992"
proof -
  have "fl (of_int 7205759403792793 / 2 ^ 53) = of_int 7205759403792793 / 2 ^ 53"
    by (rule fl_exact_frac) simp_all
  then show ?thesis by simp
qed

lemma tenth_step_9: "fadd (7205759403792793 / 9007199254740992) tenth = 2026619832316723 / 2251799813685248"
proof -
  have "fl (7205759403792793 / 9007199254740992 + 3602879701896397 / 2 ^ 55) = of_int 8106479329266892 / 2 ^ 53"
    by (rule fl_eval_frac) (simp_all add: round_half_even_def Let_def)
  then show ?thesis by (simp add: fadd_def tenth_def)
qed

lemma tenth_sum_9_double: "fl (2026619832316723 / 2251799813685248) = 2026619832316723 / 2251799813685248"
proof -
  have "fl (of_int 2026619832316723 / 2 ^ 51) = of_int 2026619832316723 / 2 ^ 51"
    by (rule fl_exact_frac) simp_all
  then show ?thesis by simp
qed

lemma tenth_step_10: "fadd (2026619832316723 / 2251799813685248) tenth = 9007199254740991 / 9007199254740992"
proof -
  have "fl (2026619832316723 / 2251799813685248 + 3602879701896397 / 2 ^ 55) = of_int 9007199254740991 / 2 ^ 53"
    by (rule fl_eval_frac) (simp_all add: round_half_even_def Let_def)
  then show ?thesis by (simp add: fadd_def tenth_def)
qed

lemma tenth_sum_10_double: "fl (9007199254740991 / 9007199254740992) = 9007199254740991 / 9007199254740992"
proof -
  have "fl (of_int 9007199254740991 / 2 ^ 53) = of_int 9007199254740991 / 2 ^ 53"
    by (rule fl_exact_frac) simp_all
  then show ?thesis by simp
qed

lemma tenth_timer_values:
  "timer_values 0 [tenth, tenth, tenth, tenth, tenth, tenth, tenth, tenth, tenth, tenth] =
     [3602879701896397 / 36028797018963968, 3602879701896397 / 18014398509481984,
      1351079888211149 / 4503599627370496, 3602879701896397 / 9007199254740992, 1 / 2,
      5404319552844595 / 9007199254740992, 3152519739159347 / 4503599627370496,
      7205759403792793 / 9007199254740992, 2026619832316723 / 2251799813685248,
      9007199254740991 / 9007199254740992]"
  by (simp only: timer_values.simps tenth_step_1 tenth_step_2 tenth_step_3 tenth_step_4
      tenth_step_5 tenth_step_6 tenth_step_7 tenth_step_8 tenth_step_9 tenth_step_10)

lemma tenth_timer_sum:
  "foldl fadd 0 [tenth, tenth, tenth, tenth, tenth, tenth, tenth, tenth, tenth, tenth] =
     9007199254740991 / 9007199254740992"
  by (simp only: foldl.simps tenth_step_1 tenth_step_2 tenth_step_3 tenth_step_4
      tenth_step_5 tenth_step_6 tenth_step_7 tenth_step_8 tenth_step_9 tenth_step_10)

lemma transition_fields:
  "state (snd (transition_to (snd (play demo_animator ''a'' True 1)) ''b'' 1)) = BLENDING"
  "blend_duration (snd (transition_to (snd (play demo_animator ''a'' True 1)) ''b'' 1)) = 1"
  "blend_time (snd (transition_to (snd (play demo_animator ''a'' True 1)) ''b'' 1)) = 0"
  "current_clip (snd (transition_to (snd (play demo_animator ''a'' True 1)) ''b'' 1)) = Some ''a''"
  "blend_clip (snd (transition_to (snd (play demo_animator ''a'' True 1)) ''b'' 1)) = Some ''b''"
  "wf_skeleton (skeleton (snd (transition_to (snd (play demo_animator ''a'' True 1)) ''b'' 1)))"
  "fst (transition_to (snd (play demo_animator ''a'' True 1)) ''b'' 1) = None"
  by (simp_all add: transition_to_def play_def truthy_def
      demo_animator_def Animator_init_def demo_skeleton_bones wf_skeleton_def demo_bone_def)

text \<open>
  Claim C3, as stated: after \<^verbatim>\<open>transition_to(B, d)\<close> with \<open>d > 0\<close> and \<^verbatim>\<open>update\<close> calls
  with nonnegative \<open>dt\<close> whose sum is at least \<open>d\<close>, the state is \<^verbatim>\<open>PLAYING\<close> and the
  current clip is \<open>B\<close>. It fails: \<^verbatim>\<open>update\<close> compares the timer \<^verbatim>\<open>_blend_time\<close>, a sum
  rounded at each call, with \<open>d\<close>. After \<^verbatim>\<open>play("a")\<close> and \<^verbatim>\<open>transition_to("b", 1.0)\<close>, ten
  calls \<^verbatim>\<open>update(0.1)\<close> have \<open>dt\<close> of sum at least 1 and leave the timer at
  \<open>1 - 2\<^sup>-\<^sup>5\<^sup>3\<close>, the state \<^verbatim>\<open>BLENDING\<close> and the current clip \<open>a\<close>.
\<close>

theorem transition_stalls_counterexample:
  "fst (transition_to (snd (play demo_animator ''a'' True 1)) ''b'' 1) = None \<and>
   state (snd (play demo_animator ''a'' True 1)) = PLAYING \<and>
   current_clip (snd (play demo_animator ''a'' True 1)) = Some ''a'' \<and>
   0 \<le> tenth \<and>
   1 \<le> sum_list [tenth, tenth, tenth, tenth, tenth, tenth, tenth, tenth, tenth, tenth] \<and>
   map_option state
     (updates (snd (transition_to (snd (play demo_animator ''a'' True 1)) ''b'' 1))
        [tenth, tenth, tenth, tenth, tenth, tenth, tenth, tenth, tenth, tenth]) = Some BLENDING \<and>
   map_option current_clip
     (updates (snd (transition_to (snd (play demo_animator ''a'' True 1)) ''b'' 1))
        [tenth, tenth, tenth, tenth, tenth, tenth, tenth, tenth, tenth, tenth]) = Some (Some ''a'') \<and>
   map_option blend_time
     (updates (snd (transition_to (snd (play demo_animator ''a'' True 1)) ''b'' 1))
        [tenth, tenth, tenth, tenth, tenth, tenth, tenth, tenth, tenth, tenth]) = Some (1 - 1 / 2 ^ 53)"
proof -
  let ?a = "snd (transition_to (snd (play demo_animator ''a'' True 1)) ''b'' 1)"
  let ?dts = "[tenth, tenth, tenth, tenth, tenth, tenth, tenth, tenth, tenth, tenth]"
  have "list_all (\<lambda>s. fdiv s (blend_duration ?a) < 1) (timer_values (blend_time ?a) ?dts)"
    unfolding transition_fields tenth_timer_values
    by (simp add: fdiv_def tenth_sum_1_double tenth_sum_2_double tenth_sum_3_double
        tenth_sum_4_double tenth_sum_5_double tenth_sum_6_double tenth_sum_7_double
        tenth_sum_8_double tenth_sum_9_double tenth_sum_10_double)
  moreover have "0 < blend_duration ?a"
    by (simp add: transition_fields)
  ultimately obtain a' where a': "updates ?a ?dts = Some a'" "state a' = BLENDING"
    "current_clip a' = current_clip ?a" "blend_time a' = foldl fadd (blend_time ?a) ?dts"
    using updates_stalled[OF transition_fields(6) transition_fields(1), of ?dts] by blast
  have "current_clip a' = Some ''a''"
    using a'(3) by (simp only: transition_fields)
  moreover have "blend_time a' = 9007199254740991 / 9007199254740992"
    using a'(4) by (simp only: transition_fields tenth_timer_sum)
  moreover note a'(1,2)
  moreover have "state (snd (play demo_animator ''a'' True 1)) = PLAYING"
    "current_clip (snd (play demo_animator ''a'' True 1)) = Some ''a''"
    by (simp_all add: play_def demo_animator_def Animator_init_def)
  ultimately show ?thesis
    by (simp add: transition_fields(7) tenth_def)
qed

text \<open>
  Claim C3, amended. After \<^verbatim>\<open>transition_to(n, d)\<close> with the clip \<open>n\<close> present and \<open>d > 0\<close>,
  and then \<^verbatim>\<open>update\<close> calls whose \<open>dt\<close>, added up as \<^verbatim>\<open>update\<close> adds them to the timer
  (from 0, each sum rounded), reach at least \<open>d\<close>, every call returns, the state is
  \<^verbatim>\<open>PLAYING\<close>, the current clip is \<open>n\<close> and the blend clip is cleared. This holds from
  any animator (a current clip playing or not), and the \<open>dt\<close> need not even be
  nonnegative.
\<close>

theorem transition_completes:
  "wf_skeleton (skeleton a) \<Longrightarrow> clips a n \<noteq> None \<Longrightarrow> 0 < d \<Longrightarrow> d \<le> foldl fadd 0 dts \<Longrightarrow>
   fst (transition_to a n d) = None \<and>
   (\<exists>a'. updates (snd (transition_to a n d)) dts = Some a' \<and>
         state a' = PLAYING \<and> current_clip a' = Some n \<and> blend_clip a' = None)"
proof -
  assume wf: "wf_skeleton (skeleton a)" and c: "clips a n \<noteq> None" and d: "0 < d" "d \<le> foldl fadd 0 dts"
  have ok: "fst (transition_to a n d) = None"
    using c by (auto simp: transition_to_def play_def Let_def)
  have wf1: "wf_skeleton (skeleton (snd (transition_to a n d)))"
    using wf c by (auto simp: transition_to_def play_def Let_def)
  have "\<exists>a'. updates (snd (transition_to a n d)) dts = Some a' \<and> transition_done n a'"
  proof (cases "truthy (current_clip a)")
    case True
    with c d show ?thesis
      by (intro updates_blending[OF wf1]) (auto simp: transition_to_def)
  next
    case False
    with c have "transition_done n (snd (transition_to a n d))"
      by (auto simp: transition_to_def play_def Let_def transition_done_def)
    from updates_done[OF wf1 this] show ?thesis .
  qed
  with ok show ?thesis by (simp add: transition_done_def)
qed

theorem transition_completes_witness:
  "wf_skeleton (skeleton (snd (play demo_animator ''a'' True 1))) \<and>
   clips (snd (play demo_animator ''a'' True 1)) ''b'' \<noteq> None \<and>
   (0::real) < 1 / 4 \<and> 1 / 4 \<le> foldl fadd 0 [1 / 16, 1 / 16, 1 / 16, 1 / 16] \<and>
   state (snd (play demo_animator ''a'' True 1)) = PLAYING \<and>
   current_clip (snd (play demo_animator ''a'' True 1)) = Some ''a'' \<and>
   (\<exists>a'. updates (snd (transition_to (snd (play demo_animator ''a'' True 1)) ''b'' (1 / 4)))
            [1 / 16, 1 / 16, 1 / 16, 1 / 16] = Some a' \<and>
         state a' = PLAYING \<and> current_clip a' = Some ''b'' \<and> blend_clip a' = None)"
proof -
  have e: "fl (1 / 16) = 1 / 16" "fl (1 / 8) = 1 / 8" "fl (3 / 16) = 3 / 16" "fl (1 / 4) = 1 / 4"
    using fl_exact_frac[of 1 4] fl_exact_frac[of 1 3] fl_exact_frac[of 3 4] fl_exact_frac[of 1 2]
    by simp_all
  have h: "wf_skeleton (skeleton (snd (play demo_animator ''a'' True 1)))"
    "clips (snd (play demo_animator ''a'' True 1)) ''b'' \<noteq> None"
    "(0::real) < 1 / 4" "1 / 4 \<le> foldl fadd 0 [1 / 16, 1 / 16, 1 / 16, 1 / 16]"
    by (simp_all add: play_def demo_animator_def Animator_init_def demo_skeleton_bones
        wf_skeleton_def demo_bone_def fadd_def e)
  have "state (snd (play demo_animator ''a'' True 1)) = PLAYING \<and>
        current_clip (snd (play demo_animator ''a'' True 1)) = Some ''a''"
    by (simp add: play_def demo_animator_def Animator_init_def)
  with h transition_completes[OF h] show ?thesis by blast
qed

lemma stale_timer_fields:
  "state stale_timer_animator = BLENDING" "blend_duration stale_timer_animator = 1"
  "blend_time stale_timer_animator = 0" "blend_alpha stale_timer_animator = 1 / 2"
  "current_clip stale_timer_animator = Some ''a''" "blend_clip stale_timer_animator = Some ''b''"
  "wf_skeleton (skeleton stale_timer_animator)"
  by (simp_all add: stale_timer_animator_def blend_def transition_to_def play_def truthy_def
      demo_animator_def Animator_init_def demo_skeleton_bones wf_skeleton_def demo_bone_def)

text \<open>
  Claim C4. The claim is that after \<^verbatim>\<open>blend\<close> the timer of a transition never touches
  \<^verbatim>\<open>blend_alpha\<close> and never replaces the current clip. \<^verbatim>\<open>blend\<close> leaves
  \<^verbatim>\<open>_blend_duration\<close> and \<^verbatim>\<open>_blend_time\<close> of an earlier \<^verbatim>\<open>transition_to\<close> as they are, so
  after \<^verbatim>\<open>play("a")\<close>, \<^verbatim>\<open>transition_to("b", 1.0)\<close>, \<^verbatim>\<open>blend("a", "b", 0.5)\<close> the call
  \<^verbatim>\<open>update(0.25)\<close> sets \<^verbatim>\<open>blend_alpha\<close> to 0.25, and \<^verbatim>\<open>update(2.0)\<close> ends the
  transition: the current clip is \<open>b\<close>, the state \<^verbatim>\<open>PLAYING\<close> and \<^verbatim>\<open>blend_alpha\<close> 0.
\<close>

theorem blend_after_transition_runs_timer:
  "fst (blend (snd (transition_to (snd (play demo_animator ''a'' True 1)) ''b'' 1)) ''a'' ''b'' (1 / 2)) = None \<and>
   blend_alpha stale_timer_animator = 1 / 2 \<and>
   current_clip stale_timer_animator = Some ''a'' \<and>
   map_option blend_alpha (update stale_timer_animator (1 / 4)) = Some (1 / 4) \<and>
   map_option current_clip (update stale_timer_animator (1 / 4)) = Some (Some ''a'') \<and>
   map_option blend_alpha (update stale_timer_animator 2) = Some 0 \<and>
   map_option current_clip (update stale_timer_animator 2) = Some (Some ''b'') \<and>
   map_option state (update stale_timer_animator 2) = Some PLAYING"
proof -
  have ok: "fst (blend (snd (transition_to (snd (play demo_animator ''a'' True 1)) ''b'' 1)) ''a'' ''b'' (1 / 2)) = None"
    by (simp add: blend_def transition_to_def play_def truthy_def demo_animator_def Animator_init_def)
  from update_returns[OF stale_timer_fields(7), of "1 / 4"] obtain sk1 where
    u1: "update stale_timer_animator (1 / 4) = Some ((tick stale_timer_animator (1 / 4))\<lparr>skeleton := sk1\<rparr>)"
    by blast
  from update_returns[OF stale_timer_fields(7), of 2] obtain sk2 where
    u2: "update stale_timer_animator 2 = Some ((tick stale_timer_animator 2)\<lparr>skeleton := sk2\<rparr>)"
    by blast
  have e: "fl (1 / 4) = 1 / 4" "fl 2 = 2"
    using fl_exact_frac[of 1 2] fl_of_int[of 2] by simp_all
  show ?thesis
    by (simp add: ok u1 u2 stale_timer_fields tick_def advance_def blend_step_def Let_def
        fadd_def fdiv_def e)
qed

section \<open>Sampling a clip\<close>

text \<open>
  Claim C6, as stated, at a clip in \<^verbatim>\<open>ONCE\<close> mode whose two keyframes are both at time 1:
  \<^verbatim>\<open>sample(1)\<close> is at the last keyframe's time and returns the angles of the first
  keyframe, which are not those of the last.
\<close>

theorem sample_once_end_counterexample:
  "keyframes dup_clip \<noteq> [] \<and> loop_mode dup_clip = ONCE \<and>
   kf_time (last (keyframes dup_clip)) \<le> 1 \<and>
   sample dup_clip 1 = bone_angles (hd (keyframes dup_clip)) \<and>
   sample dup_clip 1 \<noteq> bone_angles (last (keyframes dup_clip))"
proof -
  have "[1 \<mapsto> 0 :: real] (1 :: int) \<noteq> [1 \<mapsto> 5 :: real] 1" by simp
  then have "[1 \<mapsto> 0 :: real] \<noteq> [1 :: int \<mapsto> 5 :: real]" by metis
  then show ?thesis
    by (simp add: dup_clip_def sample_def loop_time_def duration_def)
qed

text \<open>
  Claim C6, amended. For a clip with keyframes: when the time after the loop handling is
  at or before the first keyframe's time, \<^verbatim>\<open>sample\<close> returns the first keyframe's angles
  (so it does for every \<open>t\<close> at or before that time in \<^verbatim>\<open>ONCE\<close> mode); in \<^verbatim>\<open>ONCE\<close> mode
  and for \<open>t\<close> at or after the last keyframe's time it returns the last keyframe's angles,
  provided the first keyframe is strictly earlier than the last or carries the same
  angles.
\<close>

theorem sample_boundaries:
  "keyframes c \<noteq> [] \<Longrightarrow>
   (loop_time c t \<le> kf_time (hd (keyframes c)) \<longrightarrow> sample c t = bone_angles (hd (keyframes c))) \<and>
   (loop_mode c = ONCE \<and> t \<le> kf_time (hd (keyframes c)) \<longrightarrow>
      sample c t = bone_angles (hd (keyframes c))) \<and>
   (loop_mode c = ONCE \<and> kf_time (last (keyframes c)) \<le> t \<and>
    (kf_time (hd (keyframes c)) < kf_time (last (keyframes c)) \<or>
     bone_angles (hd (keyframes c)) = bone_angles (last (keyframes c))) \<longrightarrow>
      sample c t = bone_angles (last (keyframes c)))"
  by (auto simp: sample_def loop_time_def duration_def Let_def min_def)

theorem sample_boundaries_witness:
  "keyframes (demo_clip ''b'' ONCE 1 2) \<noteq> [] \<and> loop_mode (demo_clip ''b'' ONCE 1 2) = ONCE \<and>
   loop_time (demo_clip ''b'' ONCE 1 2) (- 1) \<le> kf_time (hd (keyframes (demo_clip ''b'' ONCE 1 2))) \<and>
   - 1 \<le> kf_time (hd (keyframes (demo_clip ''b'' ONCE 1 2))) \<and>
   sample (demo_clip ''b'' ONCE 1 2) (- 1) = [1 \<mapsto> 0] \<and>
   kf_time (last (keyframes (demo_clip ''b'' ONCE 1 2))) \<le> 3 \<and>
   kf_time (hd (keyframes (demo_clip ''b'' ONCE 1 2))) < kf_time (last (keyframes (demo_clip ''b'' ONCE 1 2))) \<and>
   sample (demo_clip ''b'' ONCE 1 2) 3 = [1 \<mapsto> 2]"
  using sample_boundaries [of "demo_clip ''b'' ONCE 1 2" "- 1"] sample_boundaries [of "demo_clip ''b'' ONCE 1 2" 3]
  by (simp add: demo_clip_def loop_time_def duration_def)

lemma c_fmod_period:
  assumes d: "0 < d" and s: "0 \<le> t \<or> t + d < 0"
  shows "c_fmod (t + d) d = c_fmod t d"
proof -
  have q: "(t + d) / d = t / d + 1"
    using d by (simp add: add_divide_distrib)
  from s show ?thesis
  proof
    assume "0 \<le> t"
    with d have a: "0 \<le> t / d" "0 \<le> t / d + 1" by simp_all
    have "c_fmod (t + d) d = t + d - d * of_int \<lfloor>t / d + 1\<rfloor>"
      unfolding c_fmod_def q using a by simp
    also have "\<dots> = t - d * of_int \<lfloor>t / d\<rfloor>"
      by (simp add: algebra_simps)
    also have "\<dots> = c_fmod t d"
      unfolding c_fmod_def using a by simp
    finally show ?thesis .
  next
    assume "t + d < 0"
    with d have "(t + d) / d < 0" by (simp add: divide_neg_pos)
    then have a: "\<not> 0 \<le> t / d + 1" "\<not> 0 \<le> t / d" by (simp_all add: q)
    have "c_fmod (t + d) d = t + d - d * of_int \<lceil>t / d + 1\<rceil>"
      unfolding c_fmod_def q using a by simp
    also have "\<dots> = t + d - d * of_int (\<lceil>t / d\<rceil> + 1)"
      by simp
    also have "\<dots> = t - d * of_int \<lceil>t / d\<rceil>"
      by (simp add: algebra_simps)
    also have "\<dots> = c_fmod t d"
      unfolding c_fmod_def using a by simp
    finally show ?thesis .
  qed
qed

lemma py_fmod_period:
  assumes d: "0 < d" and e: "fadd t d = t + d"
  shows "py_fmod (t + d) d = py_fmod t d"
proof (cases "0 \<le> t \<or> t + d < 0")
  case True
  from c_fmod_period[OF d this] show ?thesis
    by (simp add: py_fmod_def)
next
  case False
  then have t: "t < 0" "- d \<le> t" by simp_all
  show ?thesis
  proof (cases "t = - d")
    case True
    with d show ?thesis
      by (simp add: py_fmod_def c_fmod_def)
  next
    case False
    with t d have r: "- 1 < t / d" "t / d < 0"
      by (simp_all add: field_simps)
    then have c: "\<lceil>t / d\<rceil> = 0"
      by (simp add: ceiling_eq_iff)
    have q: "(t + d) / d = t / d + 1"
      using d by (simp add: add_divide_distrib)
    have f: "\<lfloor>t / d + 1\<rfloor> = 0"
      by (rule floor_unique) (use r in simp_all)
    from r c have m: "c_fmod t d = t"
      by (simp add: c_fmod_def)
    have m': "c_fmod (t + d) d = t + d"
      unfolding c_fmod_def q using r by (simp add: f)
    from t False d e show ?thesis
      by (simp add: py_fmod_def m m')
  qed
qed

lemma sample_tiny:
  "sample (demo_clip ''a'' LOOP 2 4) (1 / 2 ^ 60) = [1 \<mapsto> 1 / 2 ^ 59]"
proof -
  have e: "fl (1 / 1152921504606846976) = 1 / 1152921504606846976"
    "fl (1 / 2305843009213693952) = 1 / 2305843009213693952"
    "fl (1 / 576460752303423488) = 1 / 576460752303423488"
    "fl 2 = 2" "fl 4 = 4"
    using fl_exact_frac[of 1 60] fl_exact_frac[of 1 61] fl_exact_frac[of 1 59]
      fl_of_int[of 2] fl_of_int[of 4]
    by simp_all
  have m: "c_fmod (1 / 1152921504606846976) 2 = 1 / 1152921504606846976"
    by (simp add: c_fmod_def floor_eq_iff)
  have p: "py_fmod (1 / 1152921504606846976) 2 = 1 / 1152921504606846976"
    unfolding py_fmod_def Let_def m by simp
  have i: "interpolate \<lparr>kf_time = 0, bone_angles = [1 \<mapsto> 0], easing = LINEAR\<rparr>
             \<lparr>kf_time = 2, bone_angles = [1 \<mapsto> 4], easing = LINEAR\<rparr> (1 / 1152921504606846976)
           = [1 \<mapsto> 1 / 576460752303423488]"
    by (rule ext)
      (simp add: interpolate_def mix_def get_angle_def Let_def fadd_def fsub_def fmul_def fdiv_def e)
  show ?thesis
    by (simp add: sample_def loop_time_def duration_def demo_clip_def Let_def p i)
qed

text \<open>
  Claim C7, as stated: for a clip with keyframes, a positive duration \<open>D\<close> and the mode
  \<^verbatim>\<open>LOOP\<close>, \<^verbatim>\<open>sample(t + D)\<close> equals \<^verbatim>\<open>sample(t)\<close> for every \<open>t\<close>. It fails at the clip of
  two keyframes, \<open>{1: 0.0}\<close> at time 0 and \<open>{1: 4.0}\<close> at time 2, and \<open>t = - 2\<^sup>-\<^sup>6\<^sup>0\<close>:
  \<^verbatim>\<open>t % 2.0\<close> is \<open>t + 2.0\<close> rounded, which is \<open>2.0\<close>, the time of the last keyframe, so
  \<^verbatim>\<open>sample(t)\<close> is \<open>{1: 4.0}\<close>; \<^verbatim>\<open>t + 2.0\<close> is \<open>2.0\<close> too, \<^verbatim>\<open>2.0 % 2.0\<close> is \<open>0.0\<close>, and
  \<^verbatim>\<open>sample(t + 2.0)\<close> is \<open>{1: 0.0}\<close>. At \<open>t = 2\<^sup>-\<^sup>6\<^sup>0\<close> the sum \<^verbatim>\<open>t + 2.0\<close> is rounded to
  \<open>2.0\<close> as well, and \<^verbatim>\<open>sample(t)\<close> is \<open>{1: 2\<^sup>-\<^sup>5\<^sup>9}\<close>, not \<open>{1: 0.0}\<close>.
\<close>

theorem sample_loop_rounding_counterexample:
  "keyframes (demo_clip ''a'' LOOP 2 4) \<noteq> [] \<and> duration (demo_clip ''a'' LOOP 2 4) = 2 \<and>
   loop_mode (demo_clip ''a'' LOOP 2 4) = LOOP \<and>
   fadd (- (1 / 2 ^ 60)) (duration (demo_clip ''a'' LOOP 2 4)) = 2 \<and>
   sample (demo_clip ''a'' LOOP 2 4) (- (1 / 2 ^ 60)) = [1 \<mapsto> 4] \<and>
   sample (demo_clip ''a'' LOOP 2 4) (fadd (- (1 / 2 ^ 60)) (duration (demo_clip ''a'' LOOP 2 4)))
     = [1 \<mapsto> 0] \<and>
   sample (demo_clip ''a'' LOOP 2 4) (fadd (- (1 / 2 ^ 60)) (duration (demo_clip ''a'' LOOP 2 4)))
     \<noteq> sample (demo_clip ''a'' LOOP 2 4) (- (1 / 2 ^ 60)) \<and>
   fadd (1 / 2 ^ 60) (duration (demo_clip ''a'' LOOP 2 4)) = 2 \<and>
   sample (demo_clip ''a'' LOOP 2 4) (1 / 2 ^ 60) = [1 \<mapsto> 1 / 2 ^ 59] \<and>
   sample (demo_clip ''a'' LOOP 2 4) (fadd (1 / 2 ^ 60) (duration (demo_clip ''a'' LOOP 2 4)))
     = [1 \<mapsto> 0]"
proof -
  have "fl (2 - 1 / 2 ^ 60) = of_int (2 ^ 53) / 2 ^ 52"
    by (rule fl_eval_frac) (simp_all add: round_half_even_def Let_def)
  then have r: "fadd (- (1 / 2 ^ 60)) 2 = 2"
    by (simp add: fadd_def)
  have m: "c_fmod (- (1 / 2 ^ 60)) 2 = - (1 / 2 ^ 60)"
    by (simp add: c_fmod_def ceiling_eq_iff)
  have p: "py_fmod (- (1 / 2 ^ 60)) 2 = 2"
    unfolding py_fmod_def Let_def m using r by simp
  have p': "py_fmod 2 2 = 0"
    by (simp add: py_fmod_def Let_def c_fmod_def)
  have d: "duration (demo_clip ''a'' LOOP 2 4) = 2"
    by (simp add: demo_clip_def duration_def)
  have s: "sample (demo_clip ''a'' LOOP 2 4) (- (1 / 2 ^ 60)) = [1 \<mapsto> 4]"
    by (simp add: sample_def loop_time_def duration_def demo_clip_def Let_def p[simplified])
  have s': "sample (demo_clip ''a'' LOOP 2 4) 2 = [1 \<mapsto> 0]"
    by (simp add: sample_def loop_time_def duration_def demo_clip_def Let_def p')
  have "[1 \<mapsto> 0 :: real] (1 :: int) \<noteq> [1 \<mapsto> 4 :: real] 1" by simp
  then have n: "[1 \<mapsto> 0 :: real] \<noteq> [1 :: int \<mapsto> 4 :: real]" by metis
  have k: "keyframes (demo_clip ''a'' LOOP 2 4) \<noteq> []" "loop_mode (demo_clip ''a'' LOOP 2 4) = LOOP"
    by (simp_all add: demo_clip_def)
  have r': "fadd (- (1 / 2 ^ 60)) (duration (demo_clip ''a'' LOOP 2 4)) = 2"
    unfolding d by (rule r)
  have s'': "sample (demo_clip ''a'' LOOP 2 4) (fadd (- (1 / 2 ^ 60)) (duration (demo_clip ''a'' LOOP 2 4)))
     = [1 \<mapsto> 0]"
    unfolding r' by (rule s')
  have "sample (demo_clip ''a'' LOOP 2 4) (fadd (- (1 / 2 ^ 60)) (duration (demo_clip ''a'' LOOP 2 4)))
     \<noteq> sample (demo_clip ''a'' LOOP 2 4) (- (1 / 2 ^ 60))"
    unfolding s'' s by (rule n)
  moreover have "fl (2 + 1 / 2 ^ 60) = of_int (2 ^ 52) / 2 ^ 51"
    by (rule fl_eval_frac) (simp_all add: round_half_even_def Let_def)
  then have "fadd (1 / 2 ^ 60) 2 = 2"
    by (simp add: fadd_def)
  then have q: "fadd (1 / 2 ^ 60) (duration (demo_clip ''a'' LOOP 2 4)) = 2"
    unfolding d .
  moreover have "sample (demo_clip ''a'' LOOP 2 4) (fadd (1 / 2 ^ 60) (duration (demo_clip ''a'' LOOP 2 4)))
     = [1 \<mapsto> 0]"
    unfolding q by (rule s')
  moreover note k d r' s s'' sample_tiny q
  ultimately show ?thesis by blast
qed

text \<open>
  Claim C7, amended. For a clip with keyframes, a positive duration \<open>D\<close> and the mode
  \<^verbatim>\<open>LOOP\<close>, and for every \<open>t\<close> whose sum \<open>t + D\<close> is a double, so that the addition does
  not round, \<^verbatim>\<open>sample(t + D)\<close> equals \<^verbatim>\<open>sample(t)\<close>.
\<close>

theorem sample_loop_periodic:
  "keyframes c \<noteq> [] \<Longrightarrow> 0 < duration c \<Longrightarrow> loop_mode c = LOOP \<Longrightarrow>
   fadd t (duration c) = t + duration c \<Longrightarrow>
   sample c (fadd t (duration c)) = sample c t"
  by (simp add: sample_def loop_time_def py_fmod_period)

theorem sample_loop_periodic_witness:
  "keyframes (demo_clip ''a'' LOOP 2 4) \<noteq> [] \<and> 0 < duration (demo_clip ''a'' LOOP 2 4) \<and>
   loop_mode (demo_clip ''a'' LOOP 2 4) = LOOP \<and> duration (demo_clip ''a'' LOOP 2 4) = 2 \<and>
   fadd (- (1 / 2)) (duration (demo_clip ''a'' LOOP 2 4)) = - (1 / 2) + duration (demo_clip ''a'' LOOP 2 4) \<and>
   fadd (- (1 / 2)) (duration (demo_clip ''a'' LOOP 2 4)) = 3 / 2 \<and>
   sample (demo_clip ''a'' LOOP 2 4) (fadd (- (1 / 2)) (duration (demo_clip ''a'' LOOP 2 4)))
     = sample (demo_clip ''a'' LOOP 2 4) (- (1 / 2))"
proof -
  have d: "duration (demo_clip ''a'' LOOP 2 4) = 2"
    by (simp add: demo_clip_def duration_def)
  have e: "fadd (- (1 / 2)) 2 = 3 / 2"
    using fl_exact_frac[of 3 1] by (simp add: fadd_def)
  have k: "keyframes (demo_clip ''a'' LOOP 2 4) \<noteq> []" "loop_mode (demo_clip ''a'' LOOP 2 4) = LOOP"
    by (simp_all add: demo_clip_def)
  from sample_loop_periodic [of "demo_clip ''a'' LOOP 2 4" "- (1 / 2)"] k
  show ?thesis by (simp add: d e)
qed
section \<open>Rejected calls and short chains\<close>

text \<open>
  Claim C5. \<^verbatim>\<open>play\<close> and \<^verbatim>\<open>transition_to\<close> with a clip name that is not in the clip set,
  and \<^verbatim>\<open>blend\<close> with either name not in it, raise the error and leave the animator, its
  skeleton included, exactly as it was.
\<close>

theorem rejected_call_changes_nothing:
  "(clips a n = None \<longrightarrow>
      play a n reset_time speed = (Some (clip_not_found n), a) \<and>
      transition_to a n dur = (Some (clip_not_found n), a)) \<and>
   (clips a clip1 = None \<or> clips a clip2 = None \<longrightarrow>
      blend a clip1 clip2 alpha = (Some (ValueError ''One or more clips not found''), a))"
  by (simp add: play_def transition_to_def blend_def)

theorem rejected_call_changes_nothing_witness:
  "clips demo_animator ''walk'' = None \<and>
   play demo_animator ''walk'' True 1 = (Some (clip_not_found ''walk''), demo_animator) \<and>
   transition_to demo_animator ''walk'' (3 / 10) = (Some (clip_not_found ''walk''), demo_animator) \<and>
   blend demo_animator ''a'' ''walk'' (1 / 2)
     = (Some (ValueError ''One or more clips not found''), demo_animator)"
  using rejected_call_changes_nothing [of demo_animator "''walk''" True 1 "3 / 10" "''a''" "''walk''" "1 / 2"]
  by (simp add: demo_animator_def Animator_init_def)

text \<open>
  Claim C9. When \<^verbatim>\<open>get_chain\<close> gives fewer than 2 bones, the solver returns
  \<^verbatim>\<open>False\<close> and the skeleton is as it was.
\<close>

theorem ik_short_chain_is_noop:
  "length (get_chain sk end_effector_id) < 2 \<Longrightarrow>
   calculate_inverse_kinematics sk end_effector_id target_x target_y iterations tolerance = (False, sk)"
  by (simp add: calculate_inverse_kinematics_def)

theorem ik_short_chain_is_noop_witness:
  "get_chain demo_skeleton 0 = [demo_bone 0 None 1] \<and> length (get_chain demo_skeleton 0) < 2 \<and>
   calculate_inverse_kinematics demo_skeleton 0 5 5 20 (1 / 100) = (False, demo_skeleton)"
  using ik_short_chain_is_noop [of demo_skeleton 0 5 5 20 "1 / 100"]
  by (simp add: get_chain_def get_chain_loop.simps demo_skeleton_bones get_bone_def
      demo_bone_def)

end
